theory Spec2Isabelle
  imports Complex_Main "HOL-Library.Sublist"
begin

section \<open>True Shuffle: data model\<close>

text \<open>
  The extension \<^verbatim>\<open>true-shuffle.js\<close> keeps its session in variables of one closure.
  The model below follows that file function by function.  Track identities are URIs
  (strings); a JavaScript value that may be \<^verbatim>\<open>null\<close> or \<^verbatim>\<open>undefined\<close> is an option, and
  the empty string is falsy as in JavaScript.  Numbers are IEEE doubles in the source
  and mathematical reals here; the theorems below never depend on the value of a
  weight or of a random draw.
\<close>

type_synonym uri = string

definition truthy :: "string option \<Rightarrow> bool" where
  "truthy v = (case v of None \<Rightarrow> False | Some u \<Rightarrow> u \<noteq> [])"

text \<open>\<^verbatim>\<open>v || null\<close> on a string-or-missing value.\<close>

definition or_null :: "string option \<Rightarrow> string option" where
  "or_null v = (if truthy v then v else None)"

text \<open>A play-history entry \<^verbatim>\<open>{ uri, artistUri }\<close>; a playlist track adds the display names.\<close>

record entry =
  uri :: uri
  artistUri :: "string option"

record track = entry +
  name :: string
  artistName :: string

record config =
  HISTORY_SIZE :: nat
  NO_REPEAT_WINDOW :: nat
  MIN_WEIGHT :: real
  RECENCY_DECAY_RATE :: real
  ARTIST_PENALTY :: real
  ARTIST_SPACING :: nat
  TRUE_SHUFFLE_EVERY :: nat

text \<open>The constant \<^verbatim>\<open>CONFIG\<close> of the source. The functions take the configuration as an
  argument, so that the scenarios of the specification with other values can be stated.\<close>

definition CONFIG :: config where
  "CONFIG = \<lparr> HISTORY_SIZE = 500, NO_REPEAT_WINDOW = 100, MIN_WEIGHT = 0.05,
     RECENCY_DECAY_RATE = 0.15, ARTIST_PENALTY = 0.15, ARTIST_SPACING = 2,
     TRUE_SHUFFLE_EVERY = 3 \<rparr>"

section \<open>Weighted random algorithm\<close>

text \<open>\<^verbatim>\<open>Array.prototype.findIndex\<close>: the first index whose element satisfies the predicate,
  or -1.\<close>

fun findIndex :: "('a \<Rightarrow> bool) \<Rightarrow> 'a list \<Rightarrow> int" where
  "findIndex P [] = -1"
| "findIndex P (x # xs) =
     (if P x then 0 else (let r = findIndex P xs in if r = -1 then -1 else r + 1))"

definition calculateWeight :: "config \<Rightarrow> ('a track_scheme) \<Rightarrow> ('b entry_scheme) list \<Rightarrow> real" where
  "calculateWeight cfg t history =
     (let weight = 1;
          recencyIndex = findIndex (\<lambda>h. uri h = uri t) history;
          weight = (if recencyIndex \<noteq> -1
                    then (let recencyFactor = 1 - exp (- RECENCY_DECAY_RATE cfg * real_of_int recencyIndex)
                          in weight * max (MIN_WEIGHT cfg) recencyFactor)
                    else weight);
          recentArtists = map artistUri (take (ARTIST_SPACING cfg) history);
          weight = (if truthy (artistUri t) \<and> artistUri t \<in> set recentArtists
                    then weight * ARTIST_PENALTY cfg
                    else weight)
      in max (MIN_WEIGHT cfg) weight)"

text \<open>The first \<^verbatim>\<open>NO_REPEAT_WINDOW\<close> identities of the play history
  (\<^verbatim>\<open>new Set(history.slice(0, CONFIG.NO_REPEAT_WINDOW).map(h => h.uri))\<close>).\<close>

definition recentUris :: "config \<Rightarrow> ('b entry_scheme) list \<Rightarrow> uri set" where
  "recentUris cfg history = set (map uri (take (NO_REPEAT_WINDOW cfg) history))"

text \<open>The draw loop \<^verbatim>\<open>for (const { track, weight } of weighted)\<close>: \<open>None\<close> when the loop
  ends without returning.\<close>

fun draw :: "('t \<times> real) list \<Rightarrow> real \<Rightarrow> 't option" where
  "draw [] random = None"
| "draw ((t, weight) # rest) random =
     (let random = random - weight in if random \<le> 0 then Some t else draw rest random)"

text \<open>\<^verbatim>\<open>pickNextTrack(tracks, history)\<close>. The argument \<open>rnd\<close> is the value that
  \<^verbatim>\<open>Math.random()\<close> returns; \<open>None\<close> for \<open>tracks\<close> is \<^verbatim>\<open>null\<close>.\<close>

definition pickNextTrack ::
  "config \<Rightarrow> real \<Rightarrow> track list option \<Rightarrow> ('b entry_scheme) list \<Rightarrow> track option" where
  "pickNextTrack cfg rnd tracks history =
     (case tracks of
        None \<Rightarrow> None
      | Some ts \<Rightarrow>
          if length ts = 0 then None
          else if length ts = 1 then Some (ts ! 0)
          else
            (let candidates = filter (\<lambda>t. uri t \<notin> recentUris cfg history) ts;
                 candidates = (if length candidates = 0 then ts else candidates);
                 weighted = map (\<lambda>t. (t, calculateWeight cfg t history)) candidates;
                 totalWeight = foldl (\<lambda>sum w. sum + snd w) 0 weighted;
                 random = rnd * totalWeight
             in case draw weighted random of
                  Some t \<Rightarrow> Some t
                | None \<Rightarrow> Some (fst (weighted ! (length weighted - 1)))))"

section \<open>Session state and the host player\<close>

text \<open>What the extension reads of \<^verbatim>\<open>Spicetify.Player.data.item\<close>: its \<^verbatim>\<open>uri\<close> and
  \<^verbatim>\<open>metadata.artist_uri\<close>.\<close>

record player_item =
  data_uri :: "string option"
  metadata_artist_uri :: "string option"

text \<open>An item of \<^verbatim>\<open>PlaylistAPI.getContents\<close>, as \<^verbatim>\<open>loadPlaylistTracks\<close> reads it.\<close>

record raw_item =
  item_uri :: "string option"
  item_type :: string
  isPlayable :: "bool option"
  item_name :: "string option"
  artists :: "(string option \<times> string option) list"

text \<open>Calls into the host and timers, in the order in which a handler issues them.\<close>

datatype effect =
    SetVolume real
  | Play uri "string option"
  | Seek real
  | NativeSkipIn50
  | ReleaseGuardIn1500
  | OrigPlayerNext
  | OrigPlayerBack
  | OrigSkipToNext
  | OrigSkipToPrevious
  | Preload uri
  | ShowNotification string

text \<open>The variables of the closure, then what the host player reports
  (\<open>playerItem\<close>, \<open>playerContext\<close>, \<open>playerShuffle\<close>, \<open>playerVolume\<close>), then the log of
  effects.\<close>

record state =
  playHistory :: "entry list"
  navigationHistory :: "uri list"
  navigationIndex :: int
  currentPlaylistUri :: "string option"
  currentPlaylistTracks :: "track list option"
  isActive :: bool
  skipCounter :: nat
  isNativePassSkip :: bool
  isHandlingAction :: bool
  lastPlayedByUsUri :: "string option"
  savedVolume :: "real option"
  smoothSkipMuted :: bool
  lastProgress :: real
  lastDuration :: real
  lastContextUri :: "string option"
  playerItem :: "player_item option"
  playerContext :: "string option"
  playerShuffle :: bool
  playerVolume :: real
  issued :: "effect list"

text \<open>The state when the script has started, for a given view of the player.\<close>

definition initial :: "player_item option \<Rightarrow> string option \<Rightarrow> bool \<Rightarrow> real \<Rightarrow> state" where
  "initial it ctx sh vol =
     \<lparr> playHistory = [], navigationHistory = [], navigationIndex = -1,
       currentPlaylistUri = None, currentPlaylistTracks = None, isActive = True,
       skipCounter = 0, isNativePassSkip = False, isHandlingAction = False,
       lastPlayedByUsUri = None, savedVolume = None, smoothSkipMuted = False,
       lastProgress = 0, lastDuration = 0, lastContextUri = None,
       playerItem = it, playerContext = ctx, playerShuffle = sh, playerVolume = vol,
       issued = [] \<rparr>"

definition emit :: "effect \<Rightarrow> state \<Rightarrow> state" where
  "emit e s = s\<lparr> issued := issued s @ [e] \<rparr>"

subsection \<open>Helpers\<close>

definition getContextUri :: "state \<Rightarrow> string option" where
  "getContextUri s = or_null (playerContext s)"

definition isPlaylistUri :: "string option \<Rightarrow> bool" where
  "isPlaylistUri c = (case c of None \<Rightarrow> False | Some u \<Rightarrow> prefix ''spotify:playlist:'' u)"

definition isInTrueShuffleMode :: "state \<Rightarrow> bool" where
  "isInTrueShuffleMode s = (isActive s \<and> playerShuffle s \<and> isPlaylistUri (getContextUri s))"

text \<open>\<^verbatim>\<open>xs[i]\<close>: \<^verbatim>\<open>undefined\<close> out of range.\<close>

definition js_index :: "'a list \<Rightarrow> int \<Rightarrow> 'a option" where
  "js_index xs i = (if 0 \<le> i \<and> i < int (length xs) then Some (xs ! nat i) else None)"

text \<open>\<^verbatim>\<open>xs.slice(0, e)\<close>: a negative end counts from the end of the array.\<close>

definition slice0 :: "'a list \<Rightarrow> int \<Rightarrow> 'a list" where
  "slice0 xs e = (if e < 0 then take (nat (int (length xs) + e)) xs else take (nat e) xs)"

subsection \<open>Playlist loading\<close>

text \<open>The loop of \<^verbatim>\<open>loadPlaylistTracks\<close> over \<^verbatim>\<open>contents.items\<close>.\<close>

fun loadItems :: "raw_item list \<Rightarrow> track list" where
  "loadItems [] = []"
| "loadItems (item # items) =
     (case item_uri item of
        None \<Rightarrow> loadItems items
      | Some u \<Rightarrow>
          if u = [] \<or> item_type item \<noteq> ''track'' then loadItems items
          else if isPlayable item = Some False then loadItems items
          else \<lparr> uri = u,
                 artistUri = (case artists item of [] \<Rightarrow> None | a # _ \<Rightarrow> or_null (fst a)),
                 name = (case or_null (item_name item) of None \<Rightarrow> ''Unknown'' | Some n \<Rightarrow> n),
                 artistName = (case artists item of [] \<Rightarrow> ''Unknown''
                               | a # _ \<Rightarrow> (case or_null (snd a) of None \<Rightarrow> ''Unknown'' | Some n \<Rightarrow> n)) \<rparr>
               # loadItems items)"

text \<open>\<open>contents\<close> is the answer of \<^verbatim>\<open>PlaylistAPI.getContents\<close>: \<open>None\<close> when the call throws
  or the answer has no \<^verbatim>\<open>items\<close>.\<close>

definition loadPlaylistTracks :: "raw_item list option \<Rightarrow> string option \<Rightarrow> track list option" where
  "loadPlaylistTracks contents contextUri =
     (if \<not> truthy contextUri \<or> \<not> isPlaylistUri contextUri then None
      else (case contents of None \<Rightarrow> None | Some items \<Rightarrow> Some (loadItems items)))"

definition ensurePlaylistLoaded :: "raw_item list option \<Rightarrow> state \<Rightarrow> bool \<times> state" where
  "ensurePlaylistLoaded contents s =
     (case getContextUri s of
        None \<Rightarrow> (False, s)
      | Some c \<Rightarrow>
          (let s = (if Some c \<noteq> currentPlaylistUri s \<or> currentPlaylistTracks s = None
                    then s\<lparr> currentPlaylistUri := Some c,
                            currentPlaylistTracks := loadPlaylistTracks contents (Some c) \<rparr>
                    else s)
           in ((case currentPlaylistTracks s of None \<Rightarrow> False | Some ts \<Rightarrow> length ts > 0), s)))"

subsection \<open>History management\<close>

definition recordCurrentTrack :: "config \<Rightarrow> state \<Rightarrow> state" where
  "recordCurrentTrack cfg s =
     (case playerItem s of
        None \<Rightarrow> s
      | Some currentTrack \<Rightarrow>
          (case data_uri currentTrack of
             None \<Rightarrow> s
           | Some u \<Rightarrow>
               if u = [] then s
               else
                 (let a = or_null (metadata_artist_uri currentTrack);
                      h = filter (\<lambda>h. uri h \<noteq> u) (playHistory s);
                      h = \<lparr> uri = u, artistUri = a \<rparr> # h;
                      h = (if length h > HISTORY_SIZE cfg then take (HISTORY_SIZE cfg) h else h)
                  in s\<lparr> playHistory := h \<rparr>)))"

definition pushToNavigation :: "config \<Rightarrow> string option \<Rightarrow> state \<Rightarrow> state" where
  "pushToNavigation cfg u s =
     (case u of
        None \<Rightarrow> s
      | Some v \<Rightarrow>
          if v = [] then s
          else
            (let nav = navigationHistory s;
                 nav = (if navigationIndex s < int (length nav) - 1
                        then slice0 nav (navigationIndex s + 1) else nav);
                 nav = nav @ [v];
                 idx = int (length nav) - 1
             in if length nav > HISTORY_SIZE cfg
                then (let nav = drop (length nav - HISTORY_SIZE cfg) nav
                      in s\<lparr> navigationHistory := nav, navigationIndex := int (length nav) - 1 \<rparr>)
                else s\<lparr> navigationHistory := nav, navigationIndex := idx \<rparr>))"

subsection \<open>Volume and playing a track in the playlist context\<close>

definition setVolume :: "real \<Rightarrow> state \<Rightarrow> state" where
  "setVolume v s = emit (SetVolume v) (s\<lparr> playerVolume := v \<rparr>)"

definition muteForSkip :: "state \<Rightarrow> state" where
  "muteForSkip s =
     setVolume 0 (if \<not> smoothSkipMuted s
                  then s\<lparr> savedVolume := Some (playerVolume s), smoothSkipMuted := True \<rparr>
                  else s)"

definition restoreVolume :: "state \<Rightarrow> state" where
  "restoreVolume s =
     (case savedVolume s of
        None \<Rightarrow> s
      | Some v \<Rightarrow>
          if smoothSkipMuted s
          then (setVolume v s)\<lparr> smoothSkipMuted := False, savedVolume := None \<rparr>
          else s)"

text \<open>\<open>ok\<close> tells whether the awaited \<^verbatim>\<open>PlayerAPI.play\<close> resolves (\<open>True\<close>) or throws.\<close>

definition playTrackInContext :: "bool \<Rightarrow> string option \<Rightarrow> state \<Rightarrow> bool \<times> state" where
  "playTrackInContext ok trackUri s =
     (case getContextUri s of
        None \<Rightarrow> (False, s)
      | Some contextUri \<Rightarrow>
          (let s = emit (Play contextUri trackUri) (s\<lparr> lastPlayedByUsUri := trackUri \<rparr>)
           in if ok then (True, restoreVolume s)
              else (False, restoreVolume (s\<lparr> lastPlayedByUsUri := None \<rparr>))))"

section \<open>Core actions\<close>

text \<open>
  A handler is modelled as one atomic step: the awaited calls to the host are answered
  by arguments (\<open>contents\<close> for the playlist fetch, \<open>okReplay\<close> and \<open>okPick attempt\<close> for
  the play commands, \<open>rnd attempt\<close> for \<^verbatim>\<open>Math.random()\<close>), and the timers a handler
  starts are logged as effects; a timer that fires is a step of its own
  (\<open>releaseGuard\<close>).  What happens when timers and other handlers run while a handler
  is suspended at its awaited play command is modelled after the handlers, in the
  section on suspension.
\<close>

text \<open>The entry \<^verbatim>\<open>{ uri: nextTrack.uri, artistUri: nextTrack.artistUri }\<close> that line 273
  puts in front of the play history.\<close>

definition failedEntry :: "track \<Rightarrow> entry" where
  "failedEntry nextTrack = \<lparr> uri = uri nextTrack, artistUri = artistUri nextTrack \<rparr>"

text \<open>The loop \<^verbatim>\<open>for (let attempt = 0; attempt < 3; attempt++)\<close> of \<^verbatim>\<open>handleSkipForward\<close>.\<close>

function pickLoop ::
  "config \<Rightarrow> (nat \<Rightarrow> bool) \<Rightarrow> (nat \<Rightarrow> real) \<Rightarrow> nat \<Rightarrow> state \<Rightarrow> state" where
  "pickLoop cfg okPick rnd attempt s =
     (if attempt < 3 then
        (case pickNextTrack cfg (rnd attempt) (currentPlaylistTracks s) (playHistory s) of
           None \<Rightarrow> s
         | Some nextTrack \<Rightarrow>
             (case playTrackInContext (okPick attempt) (Some (uri nextTrack)) s of
                (ok, s1) \<Rightarrow>
                  if ok then pushToNavigation cfg (Some (uri nextTrack)) s1
                  else pickLoop cfg okPick rnd (attempt + 1)
                         (s1\<lparr> playHistory := failedEntry nextTrack # playHistory s1 \<rparr>)))
      else s)"
  by pat_completeness auto
termination
  by (relation "measure (\<lambda>(cfg, okPick, rnd, attempt, s). 3 - attempt)") auto

declare pickLoop.simps [simp del]

text \<open>Lines 239 to 248: going forward in the navigation history. The result tells
  whether the handler returns there.\<close>

definition replayForward :: "bool \<Rightarrow> state \<Rightarrow> bool \<times> state" where
  "replayForward okReplay s =
     (if navigationIndex s < int (length (navigationHistory s)) - 1 then
        (let s = s\<lparr> navigationIndex := navigationIndex s + 1 \<rparr>;
             nextUri = js_index (navigationHistory s) (navigationIndex s)
         in case playTrackInContext okReplay nextUri s of
              (ok, s) \<Rightarrow>
                if \<not> ok then (False, s\<lparr> navigationIndex := navigationIndex s - 1 \<rparr>)
                else (True, s))
      else (False, s))"

text \<open>Lines 250 to 259: the native pass-through.\<close>

definition nativePassThrough :: "state \<Rightarrow> state" where
  "nativePassThrough s =
     emit NativeSkipIn50 (muteForSkip (s\<lparr> isNativePassSkip := True, isHandlingAction := False \<rparr>))"

definition handleSkipForward ::
  "config \<Rightarrow> raw_item list option \<Rightarrow> bool \<Rightarrow> (nat \<Rightarrow> bool) \<Rightarrow> (nat \<Rightarrow> real) \<Rightarrow> state \<Rightarrow> state" where
  "handleSkipForward cfg contents okReplay okPick rnd s =
     (if isHandlingAction s then s
      else
        emit ReleaseGuardIn1500
          (case ensurePlaylistLoaded contents (s\<lparr> isHandlingAction := True \<rparr>) of
             (loaded, s) \<Rightarrow>
               if \<not> loaded then s
               else
                 (case replayForward okReplay (recordCurrentTrack cfg s) of
                    (returned, s) \<Rightarrow>
                      if returned then s
                      else
                        (let s = s\<lparr> skipCounter := skipCounter s + 1 \<rparr>
                         in if skipCounter s mod TRUE_SHUFFLE_EVERY cfg \<noteq> 0
                            then nativePassThrough s
                            else pickLoop cfg okPick rnd 0 s))))"

definition handleSkipBack :: "bool \<Rightarrow> state \<Rightarrow> state" where
  "handleSkipBack ok s =
     (if isHandlingAction s then s
      else
        emit ReleaseGuardIn1500
          (let s = s\<lparr> isHandlingAction := True \<rparr>
           in if navigationIndex s > 0 then
                (let s = s\<lparr> navigationIndex := navigationIndex s - 1 \<rparr>;
                     prevUri = js_index (navigationHistory s) (navigationIndex s)
                 in snd (playTrackInContext ok prevUri s))
              else emit (Seek 0) s))"

text \<open>The timer of the \<^verbatim>\<open>finally\<close> blocks, when it fires.\<close>

definition releaseGuard :: "state \<Rightarrow> state" where
  "releaseGuard s = s\<lparr> isHandlingAction := False \<rparr>"

subsection \<open>The patched entry points\<close>

definition Player_next ::
  "config \<Rightarrow> raw_item list option \<Rightarrow> bool \<Rightarrow> (nat \<Rightarrow> bool) \<Rightarrow> (nat \<Rightarrow> real) \<Rightarrow> state \<Rightarrow> state" where
  "Player_next cfg contents okReplay okPick rnd s =
     (if isInTrueShuffleMode s
      then handleSkipForward cfg contents okReplay okPick rnd (muteForSkip s)
      else emit OrigPlayerNext s)"

definition Player_back :: "bool \<Rightarrow> state \<Rightarrow> state" where
  "Player_back ok s =
     (if isInTrueShuffleMode s then handleSkipBack ok s else emit OrigPlayerBack s)"

definition skipToNext ::
  "config \<Rightarrow> raw_item list option \<Rightarrow> bool \<Rightarrow> (nat \<Rightarrow> bool) \<Rightarrow> (nat \<Rightarrow> real) \<Rightarrow> state \<Rightarrow> state" where
  "skipToNext cfg contents okReplay okPick rnd s =
     (if isHandlingAction s then s
      else if isInTrueShuffleMode s
      then handleSkipForward cfg contents okReplay okPick rnd (muteForSkip s)
      else emit OrigSkipToNext s)"

definition skipToPrevious :: "bool \<Rightarrow> state \<Rightarrow> state" where
  "skipToPrevious ok s =
     (if isHandlingAction s then s
      else if isInTrueShuffleMode s then handleSkipBack ok s
      else emit OrigSkipToPrevious s)"

text \<open>The interval timer that samples progress and duration.\<close>

definition sampleProgress :: "real \<Rightarrow> real \<Rightarrow> state \<Rightarrow> state" where
  "sampleProgress progress duration s = s\<lparr> lastProgress := progress, lastDuration := duration \<rparr>"

subsection \<open>The songchange listener\<close>

definition currentUri :: "state \<Rightarrow> string option" where
  "currentUri s = (case playerItem s of None \<Rightarrow> None | Some it \<Rightarrow> data_uri it)"

text \<open>Lines 373 to 397: the listener when \<^verbatim>\<open>isNativePassSkip\<close> is set.\<close>

definition nativePick :: "config \<Rightarrow> state \<Rightarrow> state" where
  "nativePick cfg s =
     (let s = s\<lparr> isNativePassSkip := False \<rparr>
      in case currentUri s of
           None \<Rightarrow> s
         | Some u \<Rightarrow>
             if u = [] then s
             else if u \<in> recentUris cfg (playHistory s)
             then emit NativeSkipIn50 (muteForSkip (s\<lparr> isNativePassSkip := True \<rparr>))
             else restoreVolume (recordCurrentTrack cfg (pushToNavigation cfg (Some u) s)))"

text \<open>Lines 406 to 430: the context has changed.\<close>

definition contextChange :: "config \<Rightarrow> state \<Rightarrow> state" where
  "contextChange cfg s =
     (let contextUri = getContextUri s;
          s = s\<lparr> lastContextUri := contextUri, currentPlaylistUri := None,
                 currentPlaylistTracks := None, skipCounter := 0, playHistory := [],
                 navigationHistory := [], navigationIndex := -1 \<rparr>;
          s = (if truthy (currentUri s) then pushToNavigation cfg (currentUri s) s else s)
      in case contextUri of
           None \<Rightarrow> s
         | Some c \<Rightarrow> if isPlaylistUri (Some c) then emit (Preload c) s else s)"

text \<open>The \<^verbatim>\<open>then\<close> callback of the pre-load, when the fetch has answered.\<close>

definition preloadDone :: "raw_item list option \<Rightarrow> uri \<Rightarrow> state \<Rightarrow> state" where
  "preloadDone contents contextUri s =
     (case loadPlaylistTracks contents (Some contextUri) of
        None \<Rightarrow> s
      | Some tracks \<Rightarrow>
          s\<lparr> currentPlaylistUri := Some contextUri, currentPlaylistTracks := Some tracks \<rparr>)"

definition songchange ::
  "config \<Rightarrow> raw_item list option \<Rightarrow> bool \<Rightarrow> (nat \<Rightarrow> bool) \<Rightarrow> (nat \<Rightarrow> real) \<Rightarrow> state \<Rightarrow> state" where
  "songchange cfg contents okReplay okPick rnd s =
     (if isHandlingAction s then s
      else if isNativePassSkip s then nativePick cfg s
      else if truthy (currentUri s) \<and> currentUri s = lastPlayedByUsUri s
      then s\<lparr> lastPlayedByUsUri := None \<rparr>
      else if getContextUri s \<noteq> lastContextUri s then contextChange cfg s
      else if \<not> isInTrueShuffleMode s then s
      else if lastDuration s > 0 \<and> lastDuration s - lastProgress s < 5000
      then handleSkipForward cfg contents okReplay okPick rnd s
      else s)"

text \<open>The topbar button.\<close>

definition toggle :: "state \<Rightarrow> state" where
  "toggle s =
     (let s = s\<lparr> isActive := \<not> isActive s \<rparr>
      in emit (ShowNotification (if isActive s then ''True Shuffle enabled''
                                 else ''True Shuffle disabled'')) s)"

section \<open>Suspension at the awaited play command\<close>

text \<open>
  A handler that awaits \<^verbatim>\<open>PlayerAPI.play\<close> (line 195, reached from lines 242 and 291) is
  suspended there; timers and other handlers then run on the same variables before it
  resumes.  The two halves of \<^verbatim>\<open>playTrackInContext\<close> and of the handlers around that
  await are steps of their own here.  Run one right after the other they are the atomic
  handlers above (\<open>playTrackInContext_halves\<close>, \<open>handleSkipForward_halves\<close>,
  \<open>handleSkipBack_halves\<close>).
\<close>

text \<open>\<^verbatim>\<open>playTrackInContext\<close> up to its await: \<open>None\<close> when there is no context and the
  function returns \<^verbatim>\<open>false\<close> at once.\<close>

definition playBegin :: "string option \<Rightarrow> state \<Rightarrow> state option" where
  "playBegin trackUri s =
     (case getContextUri s of
        None \<Rightarrow> None
      | Some contextUri \<Rightarrow> Some (emit (Play contextUri trackUri) (s\<lparr> lastPlayedByUsUri := trackUri \<rparr>)))"

text \<open>\<^verbatim>\<open>playTrackInContext\<close> from its await on: the play command has resolved (\<open>ok\<close>) or
  thrown.\<close>

definition playEnd :: "bool \<Rightarrow> state \<Rightarrow> bool \<times> state" where
  "playEnd ok s =
     (if ok then (True, restoreVolume s)
      else (False, restoreVolume (s\<lparr> lastPlayedByUsUri := None \<rparr>)))"

text \<open>\<^verbatim>\<open>handleSkipForward\<close> up to the await of line 242: \<open>None\<close> when the handler does not
  get there.\<close>

definition forwardAwait :: "config \<Rightarrow> raw_item list option \<Rightarrow> state \<Rightarrow> state option" where
  "forwardAwait cfg contents s =
     (if isHandlingAction s then None
      else
        (case ensurePlaylistLoaded contents (s\<lparr> isHandlingAction := True \<rparr>) of
           (loaded, s) \<Rightarrow>
             if \<not> loaded then None
             else
               (let s = recordCurrentTrack cfg s
                in if navigationIndex s < int (length (navigationHistory s)) - 1 then
                     (let s = s\<lparr> navigationIndex := navigationIndex s + 1 \<rparr>;
                          nextUri = js_index (navigationHistory s) (navigationIndex s)
                      in playBegin nextUri s)
                   else None)))"

text \<open>\<^verbatim>\<open>handleSkipForward\<close> from the await of line 242 to its end, on the variables as
  they are when the play command completes.\<close>

definition forwardResume ::
  "config \<Rightarrow> bool \<Rightarrow> (nat \<Rightarrow> bool) \<Rightarrow> (nat \<Rightarrow> real) \<Rightarrow> state \<Rightarrow> state" where
  "forwardResume cfg okReplay okPick rnd s =
     emit ReleaseGuardIn1500
       (case playEnd okReplay s of
          (ok, s) \<Rightarrow>
            if \<not> ok then
              (let s = s\<lparr> navigationIndex := navigationIndex s - 1 \<rparr>;
                   s = s\<lparr> skipCounter := skipCounter s + 1 \<rparr>
               in if skipCounter s mod TRUE_SHUFFLE_EVERY cfg \<noteq> 0
                  then nativePassThrough s
                  else pickLoop cfg okPick rnd 0 s)
            else s)"

text \<open>\<^verbatim>\<open>handleSkipBack\<close> up to the await of line 291, and from there to its end.\<close>

definition backAwait :: "state \<Rightarrow> state option" where
  "backAwait s =
     (if isHandlingAction s then None
      else
        (let s = s\<lparr> isHandlingAction := True \<rparr>
         in if navigationIndex s > 0 then
              (let s = s\<lparr> navigationIndex := navigationIndex s - 1 \<rparr>;
                   prevUri = js_index (navigationHistory s) (navigationIndex s)
               in playBegin prevUri s)
            else None))"

definition backResume :: "bool \<Rightarrow> state \<Rightarrow> state" where
  "backResume ok s = emit ReleaseGuardIn1500 (snd (playEnd ok s))"

text \<open>The host player reports other data: another item, context, shuffle mode or volume.\<close>

definition hostReports ::
  "player_item option \<Rightarrow> string option \<Rightarrow> bool \<Rightarrow> real \<Rightarrow> state \<Rightarrow> state" where
  "hostReports it ctx sh vol s =
     s\<lparr> playerItem := it, playerContext := ctx, playerShuffle := sh, playerVolume := vol \<rparr>"

definition hostPlays :: "player_item \<Rightarrow> state \<Rightarrow> state" where
  "hostPlays it s = hostReports (Some it) (playerContext s) (playerShuffle s) (playerVolume s) s"

text \<open>The states of a session: from the start, any of the steps above in any order.  A
  half of a handler may run on its own here, so the handlers interleave as the timers
  allow.\<close>

inductive reachable :: "config \<Rightarrow> state \<Rightarrow> bool" for cfg :: config where
  at_start: "reachable cfg (initial it ctx sh vol)"
| by_host: "reachable cfg s \<Longrightarrow> reachable cfg (hostReports it ctx sh vol s)"
| by_next: "reachable cfg s \<Longrightarrow> reachable cfg (Player_next cfg contents okReplay okPick rnd s)"
| by_back: "reachable cfg s \<Longrightarrow> reachable cfg (Player_back ok s)"
| by_skipToNext: "reachable cfg s \<Longrightarrow> reachable cfg (skipToNext cfg contents okReplay okPick rnd s)"
| by_skipToPrevious: "reachable cfg s \<Longrightarrow> reachable cfg (skipToPrevious ok s)"
| by_songchange: "reachable cfg s \<Longrightarrow> reachable cfg (songchange cfg contents okReplay okPick rnd s)"
| by_timer: "reachable cfg s \<Longrightarrow> reachable cfg (releaseGuard s)"
| by_sample: "reachable cfg s \<Longrightarrow> reachable cfg (sampleProgress progress duration s)"
| by_preload: "reachable cfg s \<Longrightarrow> reachable cfg (preloadDone contents contextUri s)"
| by_toggle: "reachable cfg s \<Longrightarrow> reachable cfg (toggle s)"
| by_mute: "reachable cfg s \<Longrightarrow> reachable cfg (muteForSkip s)"
| by_forwardAwait:
    "reachable cfg s \<Longrightarrow> forwardAwait cfg contents s = Some s' \<Longrightarrow> reachable cfg s'"
| by_forwardResume: "reachable cfg s \<Longrightarrow> reachable cfg (forwardResume cfg okReplay okPick rnd s)"
| by_backAwait: "reachable cfg s \<Longrightarrow> backAwait s = Some s' \<Longrightarrow> reachable cfg s'"
| by_backResume: "reachable cfg s \<Longrightarrow> reachable cfg (backResume ok s)"

section \<open>Observations on states\<close>



text \<open>The cursor of the navigation history is -1 when the history is empty and an
  index into it otherwise.\<close>

definition cursor_valid :: "state \<Rightarrow> bool" where
  "cursor_valid s =
     (if navigationHistory s = [] then navigationIndex s = -1
      else 0 \<le> navigationIndex s \<and> navigationIndex s < int (length (navigationHistory s)))"

text \<open>The effects that a step from \<open>s\<close> to \<open>s'\<close> has issued, in order.\<close>

definition newEffects :: "state \<Rightarrow> state \<Rightarrow> effect list" where
  "newEffects s s' = drop (length (issued s)) (issued s')"

fun isPlay :: "effect \<Rightarrow> bool" where
  "isPlay (Play c u) = True"
| "isPlay e = False"

section \<open>Example data\<close>

text \<open>Tracks and entries named by a letter, and a session of the playlist \<open>p\<close> in which
  a, b, c were played and the listener has stepped back to b.\<close>

definition mkTrack :: "string \<Rightarrow> track" where
  "mkTrack n = \<lparr> uri = ''spotify:track:'' @ n, artistUri = Some (''spotify:artist:'' @ n),
                 name = n, artistName = n \<rparr>"

definition mkEntry :: "string \<Rightarrow> entry" where
  "mkEntry n = \<lparr> uri = ''spotify:track:'' @ n, artistUri = Some (''spotify:artist:'' @ n) \<rparr>"

definition exState :: state where
  "exState =
     (initial (Some \<lparr> data_uri = Some ''spotify:track:b'',
                       metadata_artist_uri = Some ''spotify:artist:b'' \<rparr>)
        (Some ''spotify:playlist:p'') True 0.8)
     \<lparr> playHistory := [mkEntry ''b'', mkEntry ''a''],
       navigationHistory := [''spotify:track:a'', ''spotify:track:b'', ''spotify:track:c''],
       navigationIndex := 1,
       currentPlaylistUri := Some ''spotify:playlist:p'',
       currentPlaylistTracks := Some [mkTrack ''a'', mkTrack ''b'', mkTrack ''c'', mkTrack ''d''],
       lastContextUri := Some ''spotify:playlist:p'' \<rparr>"

text \<open>The same session with the cursor at the tail: c is playing.\<close>

definition exTail :: state where
  "exTail = exState\<lparr> navigationIndex := 2,
       playerItem := Some \<lparr> data_uri = Some ''spotify:track:c'',
                             metadata_artist_uri = Some ''spotify:artist:c'' \<rparr> \<rparr>"

text \<open>After a native pass-through from \<open>exTail\<close>: the player has moved on to d.\<close>

definition exNative :: state where
  "exNative = (muteForSkip exTail)\<lparr> isNativePassSkip := True, skipCounter := 1,
       playerItem := Some \<lparr> data_uri = Some ''spotify:track:d'',
                             metadata_artist_uri = Some ''spotify:artist:d'' \<rparr>,
       playHistory := [mkEntry ''c'', mkEntry ''b'', mkEntry ''a''] \<rparr>"



text \<open>A long session: 500 tracks named x, xx, xxx, ... are in the play history, the track
  \<open>new\<close> is playing, and the next skip is a True-Shuffle pick.\<close>

definition xs :: "nat \<Rightarrow> string" where
  "xs i = replicate (Suc i) CHR ''x''"

definition exFull :: state where
  "exFull =
     (initial (Some \<lparr> data_uri = Some ''spotify:track:new'', metadata_artist_uri = None \<rparr>)
        (Some ''spotify:playlist:p'') True 0.8)
     \<lparr> playHistory := map (\<lambda>i. mkEntry (xs i)) [0..<500],
       navigationHistory := rev (map (\<lambda>i. ''spotify:track:'' @ xs i) [0..<499]) @ [''spotify:track:new''],
       navigationIndex := 499,
       currentPlaylistUri := Some ''spotify:playlist:p'',
       currentPlaylistTracks := Some (mkTrack ''new'' # map (\<lambda>i. mkTrack (xs i)) [0..<600]),
       skipCounter := 2,
       lastContextUri := Some ''spotify:playlist:p'' \<rparr>"

text \<open>A host whose play commands all fail, and a random source that always draws 0.5.\<close>

definition noPlay :: "nat \<Rightarrow> bool" where
  "noPlay attempt = False"

definition draws :: "nat \<Rightarrow> real" where
  "draws attempt = 0.5"

text \<open>What the host reports for the track of a letter, and the items of the playlist \<open>p\<close>.\<close>

definition mkItem :: "string \<Rightarrow> player_item" where
  "mkItem n = \<lparr> data_uri = Some (''spotify:track:'' @ n),
                metadata_artist_uri = Some (''spotify:artist:'' @ n) \<rparr>"

definition mkRaw :: "string \<Rightarrow> raw_item" where
  "mkRaw n = \<lparr> item_uri = Some (''spotify:track:'' @ n), item_type = ''track'',
               isPlayable = Some True, item_name = Some n,
               artists = [(Some (''spotify:artist:'' @ n), Some n)] \<rparr>"

definition exItems :: "raw_item list" where
  "exItems = map mkRaw [''a'', ''b'', ''c'', ''d'']"

text \<open>The session right after the script has started on the playlist \<open>p\<close> with a playing:
  the first songchange event has seeded the navigation history and the pre-load has
  answered.\<close>

definition exOne :: state where
  "exOne =
     preloadDone (Some exItems) ''spotify:playlist:p''
       (songchange CONFIG None False noPlay draws
          (initial (Some (mkItem ''a'')) (Some ''spotify:playlist:p'') True 0.8))"

text \<open>A run from \<open>exOne\<close> in which two skips overlap: see the theorem on the cursor.\<close>

definition race1 :: state where
  "race1 = Player_next CONFIG None False noPlay draws exOne"

definition race2 :: state where
  "race2 = songchange CONFIG None False noPlay draws (hostPlays (mkItem ''b'') race1)"

definition race3 :: state where
  "race3 = songchange CONFIG None False noPlay draws (hostPlays (mkItem ''a'') (Player_back True race2))"

definition race4 :: state where
  "race4 = releaseGuard race3"

definition race5 :: "state option" where
  "race5 = forwardAwait CONFIG None (muteForSkip race4)"

definition race6 :: "state option" where
  "race6 = Option.bind race5 (\<lambda>s. backAwait (releaseGuard s))"

definition race7 :: "state option" where
  "race7 = map_option (forwardResume CONFIG False noPlay draws) race6"






section \<open>Properties of the weighted selector\<close>

lemma draw_member: "draw ws r = Some t \<Longrightarrow> t \<in> fst ` set ws"
  by (induction ws r rule: draw.induct) (auto simp: Let_def split: if_splits)

lemma pick_from_candidates:
  assumes "cs \<noteq> []"
  shows "\<exists>t \<in> set cs.
           (case draw (map (\<lambda>t. (t, w t)) cs) r of Some t \<Rightarrow> Some t
            | None \<Rightarrow> Some (fst (map (\<lambda>t. (t, w t)) cs ! (length (map (\<lambda>t. (t, w t)) cs) - 1))))
           = Some t"
proof (cases "draw (map (\<lambda>t. (t, w t)) cs) r")
  case None
  from assms have "length cs - 1 < length cs" by (cases cs) auto
  with None show ?thesis by simp
next
  case (Some t)
  from draw_member [OF Some] show ?thesis using Some by (auto simp: image_iff)
qed

lemma pickNextTrack_many:
  assumes "2 \<le> length ts"
  shows "pickNextTrack cfg rnd (Some ts) h =
           (let cs = (if filter (\<lambda>t. uri t \<notin> recentUris cfg h) ts = [] then ts
                      else filter (\<lambda>t. uri t \<notin> recentUris cfg h) ts);
                weighted = map (\<lambda>t. (t, calculateWeight cfg t h)) cs
            in case draw weighted (rnd * foldl (\<lambda>sum w. sum + snd w) 0 weighted) of
                 Some t \<Rightarrow> Some t
               | None \<Rightarrow> Some (fst (weighted ! (length weighted - 1))))"
proof -
  from assms have "length ts \<noteq> 0" "length ts \<noteq> 1" by auto
  then show ?thesis by (simp add: pickNextTrack_def Let_def)
qed

lemma pickNextTrack_member:
  assumes "2 \<le> length ts"
  shows "\<exists>t. pickNextTrack cfg rnd (Some ts) h = Some t \<and>
             t \<in> set (if filter (\<lambda>t. uri t \<notin> recentUris cfg h) ts = [] then ts
                       else filter (\<lambda>t. uri t \<notin> recentUris cfg h) ts)"
proof -
  let ?cs = "if filter (\<lambda>t. uri t \<notin> recentUris cfg h) ts = [] then ts
             else filter (\<lambda>t. uri t \<notin> recentUris cfg h) ts"
  from assms have "ts \<noteq> []" by auto
  then have "?cs \<noteq> []" by simp
  from pick_from_candidates [OF this, where w = "\<lambda>t. calculateWeight cfg t h"
      and r = "rnd * foldl (\<lambda>sum w. sum + snd w) 0 (map (\<lambda>t. (t, calculateWeight cfg t h)) ?cs)"]
  obtain t where "t \<in> set ?cs" and
    "(case draw (map (\<lambda>t. (t, calculateWeight cfg t h)) ?cs)
             (rnd * foldl (\<lambda>sum w. sum + snd w) 0 (map (\<lambda>t. (t, calculateWeight cfg t h)) ?cs)) of
        Some t \<Rightarrow> Some t
      | None \<Rightarrow> Some (fst (map (\<lambda>t. (t, calculateWeight cfg t h)) ?cs !
                             (length (map (\<lambda>t. (t, calculateWeight cfg t h)) ?cs) - 1)))) = Some t"
    by blast
  then show ?thesis
    unfolding pickNextTrack_many [OF assms] Let_def by blast
qed

lemma pickNextTrack_single: "pickNextTrack cfg rnd (Some [x]) h = Some x"
  by (simp add: pickNextTrack_def)

lemma pickNextTrack_empty: "pickNextTrack cfg rnd (Some []) h = None"
  by (simp add: pickNextTrack_def)

lemma pickNextTrack_nonempty:
  assumes "ts \<noteq> []"
  shows "\<exists>t \<in> set ts. pickNextTrack cfg rnd (Some ts) h = Some t"
proof (cases "length ts = 1")
  case True
  then obtain x where "ts = [x]" by (cases ts) auto
  with pickNextTrack_single [of cfg rnd x h] show ?thesis by simp
next
  case False
  moreover from assms have "length ts \<noteq> 0" by simp
  ultimately have "2 \<le> length ts" by arith
  from pickNextTrack_member [OF this, of cfg rnd h] show ?thesis
    by (auto split: if_splits)
qed

text \<open>
  C3. The weighted selector returns \<^verbatim>\<open>null\<close> exactly when the candidate list is empty;
  for a singleton list it returns the sole element; for every non-empty list it returns
  a member of the list.  This holds for every configuration, history and random draw.
\<close>

theorem C3_selector_result:
  "(pickNextTrack cfg rnd (Some ts) h = None \<longleftrightarrow> ts = []) \<and>
   pickNextTrack cfg rnd (Some [t]) h = Some t \<and>
   (ts \<noteq> [] \<longrightarrow> (\<exists>t \<in> set ts. pickNextTrack cfg rnd (Some ts) h = Some t))"
proof -
  have "pickNextTrack cfg rnd (Some ts) h = None \<longleftrightarrow> ts = []"
    using pickNextTrack_nonempty [of ts cfg rnd h] pickNextTrack_empty [of cfg rnd h]
    by (cases "ts = []") auto
  with pickNextTrack_single [of cfg rnd t h] pickNextTrack_nonempty [of ts cfg rnd h]
  show ?thesis by blast
qed

theorem C3_selector_result_witness:
  "pickNextTrack CONFIG 0.5 (Some [mkTrack ''a'', mkTrack ''b'']) [mkEntry ''a''] \<noteq> None \<and>
   pickNextTrack CONFIG 0.5 (Some [mkTrack ''a'']) [mkEntry ''a''] = Some (mkTrack ''a'') \<and>
   (\<exists>t \<in> set [mkTrack ''a'', mkTrack ''b''].
      pickNextTrack CONFIG 0.5 (Some [mkTrack ''a'', mkTrack ''b'']) [mkEntry ''a''] = Some t)"
  using C3_selector_result [of CONFIG "0.5" "[mkTrack ''a'', mkTrack ''b'']" "[mkEntry ''a'']" "mkTrack ''a''"]
  by simp

text \<open>
  C4. For a candidate list with at least two entries the selector returns a candidate
  whose identity is not among the first \<^verbatim>\<open>NO_REPEAT_WINDOW\<close> entries of the play history,
  unless every candidate is excluded, and then it returns a member of the unfiltered
  list.  Scenario: with \<^verbatim>\<open>NO_REPEAT_WINDOW = 2\<close>, a history that starts with A, B and
  candidates A, B, C, D (C and D other identities than A and B), the selection is C or D.
\<close>

theorem C4_no_repeat_window:
  "(2 \<le> length ts \<longrightarrow>
      (\<exists>t \<in> set ts. pickNextTrack cfg rnd (Some ts) h = Some t \<and>
         ((\<exists>c \<in> set ts. uri c \<notin> recentUris cfg h) \<longrightarrow> uri t \<notin> recentUris cfg h))) \<and>
   (NO_REPEAT_WINDOW cfg = 2 \<and> uri eA = uri A \<and> uri eB = uri B \<and>
    uri C \<notin> {uri A, uri B} \<and> uri D \<notin> {uri A, uri B} \<longrightarrow>
      pickNextTrack cfg rnd (Some [A, B, C, D]) (eA # eB # rest) \<in> {Some C, Some D})"
proof (intro conjI impI)
  assume "2 \<le> length ts"
  from pickNextTrack_member [OF this, of cfg rnd h]
  obtain t where t: "pickNextTrack cfg rnd (Some ts) h = Some t"
    and mem: "t \<in> set (if filter (\<lambda>t. uri t \<notin> recentUris cfg h) ts = [] then ts
                        else filter (\<lambda>t. uri t \<notin> recentUris cfg h) ts)"
    by blast
  have "t \<in> set ts" using mem by (auto split: if_splits)
  moreover have "uri t \<notin> recentUris cfg h" if "\<exists>c \<in> set ts. uri c \<notin> recentUris cfg h"
  proof -
    from that have "filter (\<lambda>t. uri t \<notin> recentUris cfg h) ts \<noteq> []"
      by (auto simp: filter_empty_conv)
    with mem show ?thesis by auto
  qed
  ultimately show "\<exists>t \<in> set ts. pickNextTrack cfg rnd (Some ts) h = Some t \<and>
         ((\<exists>c \<in> set ts. uri c \<notin> recentUris cfg h) \<longrightarrow> uri t \<notin> recentUris cfg h)"
    using t by blast
next
  assume a: "NO_REPEAT_WINDOW cfg = 2 \<and> uri eA = uri A \<and> uri eB = uri B \<and>
    uri C \<notin> {uri A, uri B} \<and> uri D \<notin> {uri A, uri B}"
  let ?h = "eA # eB # rest"
  have r: "recentUris cfg ?h = {uri A, uri B}"
    using a by (simp add: recentUris_def numeral_2_eq_2)
  have f: "filter (\<lambda>t. uri t \<notin> recentUris cfg ?h) [A, B, C, D] = [C, D]"
    using a by (simp add: r)
  have "2 \<le> length [A, B, C, D]" by simp
  from pickNextTrack_member [OF this, of cfg rnd ?h]
  show "pickNextTrack cfg rnd (Some [A, B, C, D]) ?h \<in> {Some C, Some D}"
    unfolding f by auto
qed

theorem C4_no_repeat_window_witness:
  "(\<exists>t \<in> set [mkTrack ''a'', mkTrack ''b'', mkTrack ''c''].
      pickNextTrack (CONFIG\<lparr> NO_REPEAT_WINDOW := 2 \<rparr>) 0.5
        (Some [mkTrack ''a'', mkTrack ''b'', mkTrack ''c''])
        [mkEntry ''a'', mkEntry ''b''] = Some t \<and>
      uri t \<notin> recentUris (CONFIG\<lparr> NO_REPEAT_WINDOW := 2 \<rparr>) [mkEntry ''a'', mkEntry ''b'']) \<and>
   pickNextTrack (CONFIG\<lparr> NO_REPEAT_WINDOW := 2 \<rparr>) 0.5
      (Some [mkTrack ''a'', mkTrack ''b'', mkTrack ''c'', mkTrack ''d''])
      [mkEntry ''a'', mkEntry ''b'', mkEntry ''c'']
    \<in> {Some (mkTrack ''c''), Some (mkTrack ''d'')}"
proof -
  have x: "\<exists>c \<in> set [mkTrack ''a'', mkTrack ''b'', mkTrack ''c''].
             uri c \<notin> recentUris (CONFIG\<lparr> NO_REPEAT_WINDOW := 2 \<rparr>) [mkEntry ''a'', mkEntry ''b'']"
    by (simp add: recentUris_def mkTrack_def mkEntry_def CONFIG_def)
  have y: "NO_REPEAT_WINDOW (CONFIG\<lparr> NO_REPEAT_WINDOW := 2 \<rparr>) = 2 \<and>
           uri (mkEntry ''a'') = uri (mkTrack ''a'') \<and> uri (mkEntry ''b'') = uri (mkTrack ''b'') \<and>
           uri (mkTrack ''c'') \<notin> {uri (mkTrack ''a''), uri (mkTrack ''b'')} \<and>
           uri (mkTrack ''d'') \<notin> {uri (mkTrack ''a''), uri (mkTrack ''b'')}"
    by (simp add: mkTrack_def mkEntry_def)
  from C4_no_repeat_window
    [where ts = "[mkTrack ''a'', mkTrack ''b'', mkTrack ''c'']"
       and cfg = "CONFIG\<lparr> NO_REPEAT_WINDOW := 2 \<rparr>" and rnd = "0.5"
       and h = "[mkEntry ''a'', mkEntry ''b'']"
       and eA = "mkEntry ''a''" and A = "mkTrack ''a''" and eB = "mkEntry ''b''"
       and B = "mkTrack ''b''" and C = "mkTrack ''c''" and D = "mkTrack ''d''"
       and rest = "[mkEntry ''c'']"]
  show ?thesis using x y by simp
qed

section \<open>What each operation leaves unchanged\<close>

lemma emit_fields:
  "playHistory (emit e s) = playHistory s"
  "navigationHistory (emit e s) = navigationHistory s"
  "navigationIndex (emit e s) = navigationIndex s"
  "currentPlaylistUri (emit e s) = currentPlaylistUri s"
  "currentPlaylistTracks (emit e s) = currentPlaylistTracks s"
  "isActive (emit e s) = isActive s"
  "skipCounter (emit e s) = skipCounter s"
  "isNativePassSkip (emit e s) = isNativePassSkip s"
  "isHandlingAction (emit e s) = isHandlingAction s"
  "lastPlayedByUsUri (emit e s) = lastPlayedByUsUri s"
  "savedVolume (emit e s) = savedVolume s"
  "smoothSkipMuted (emit e s) = smoothSkipMuted s"
  "lastContextUri (emit e s) = lastContextUri s"
  "playerItem (emit e s) = playerItem s"
  "playerContext (emit e s) = playerContext s"
  "playerShuffle (emit e s) = playerShuffle s"
  "playerVolume (emit e s) = playerVolume s"
  "issued (emit e s) = issued s @ [e]"
  by (simp_all add: emit_def)

lemma muteForSkip_fields:
  "playHistory (muteForSkip s) = playHistory s"
  "navigationHistory (muteForSkip s) = navigationHistory s"
  "navigationIndex (muteForSkip s) = navigationIndex s"
  "currentPlaylistUri (muteForSkip s) = currentPlaylistUri s"
  "currentPlaylistTracks (muteForSkip s) = currentPlaylistTracks s"
  "isActive (muteForSkip s) = isActive s"
  "skipCounter (muteForSkip s) = skipCounter s"
  "isNativePassSkip (muteForSkip s) = isNativePassSkip s"
  "isHandlingAction (muteForSkip s) = isHandlingAction s"
  "lastPlayedByUsUri (muteForSkip s) = lastPlayedByUsUri s"
  "lastContextUri (muteForSkip s) = lastContextUri s"
  "playerItem (muteForSkip s) = playerItem s"
  "playerContext (muteForSkip s) = playerContext s"
  "playerShuffle (muteForSkip s) = playerShuffle s"
  "smoothSkipMuted (muteForSkip s) = True"
  "playerVolume (muteForSkip s) = 0"
  "savedVolume (muteForSkip s) = (if smoothSkipMuted s then savedVolume s else Some (playerVolume s))"
  "issued (muteForSkip s) = issued s @ [SetVolume 0]"
  by (simp_all add: muteForSkip_def setVolume_def emit_def)

lemma restoreVolume_fields:
  "playHistory (restoreVolume s) = playHistory s"
  "navigationHistory (restoreVolume s) = navigationHistory s"
  "navigationIndex (restoreVolume s) = navigationIndex s"
  "currentPlaylistUri (restoreVolume s) = currentPlaylistUri s"
  "currentPlaylistTracks (restoreVolume s) = currentPlaylistTracks s"
  "isActive (restoreVolume s) = isActive s"
  "skipCounter (restoreVolume s) = skipCounter s"
  "isNativePassSkip (restoreVolume s) = isNativePassSkip s"
  "isHandlingAction (restoreVolume s) = isHandlingAction s"
  "lastPlayedByUsUri (restoreVolume s) = lastPlayedByUsUri s"
  "lastContextUri (restoreVolume s) = lastContextUri s"
  "playerItem (restoreVolume s) = playerItem s"
  "playerContext (restoreVolume s) = playerContext s"
  "playerShuffle (restoreVolume s) = playerShuffle s"
  by (simp_all add: restoreVolume_def setVolume_def emit_def split: option.splits)

lemma playTrackInContext_fields:
  "playHistory (snd (playTrackInContext ok u s)) = playHistory s"
  "navigationHistory (snd (playTrackInContext ok u s)) = navigationHistory s"
  "navigationIndex (snd (playTrackInContext ok u s)) = navigationIndex s"
  "currentPlaylistUri (snd (playTrackInContext ok u s)) = currentPlaylistUri s"
  "currentPlaylistTracks (snd (playTrackInContext ok u s)) = currentPlaylistTracks s"
  "isActive (snd (playTrackInContext ok u s)) = isActive s"
  "skipCounter (snd (playTrackInContext ok u s)) = skipCounter s"
  "isNativePassSkip (snd (playTrackInContext ok u s)) = isNativePassSkip s"
  "isHandlingAction (snd (playTrackInContext ok u s)) = isHandlingAction s"
  "lastContextUri (snd (playTrackInContext ok u s)) = lastContextUri s"
  "playerItem (snd (playTrackInContext ok u s)) = playerItem s"
  "playerContext (snd (playTrackInContext ok u s)) = playerContext s"
  "playerShuffle (snd (playTrackInContext ok u s)) = playerShuffle s"
  by (simp_all add: playTrackInContext_def Let_def restoreVolume_fields emit_fields
        split: option.splits)

lemma recordCurrentTrack_fields:
  "navigationHistory (recordCurrentTrack cfg s) = navigationHistory s"
  "navigationIndex (recordCurrentTrack cfg s) = navigationIndex s"
  "currentPlaylistUri (recordCurrentTrack cfg s) = currentPlaylistUri s"
  "currentPlaylistTracks (recordCurrentTrack cfg s) = currentPlaylistTracks s"
  "isActive (recordCurrentTrack cfg s) = isActive s"
  "skipCounter (recordCurrentTrack cfg s) = skipCounter s"
  "isNativePassSkip (recordCurrentTrack cfg s) = isNativePassSkip s"
  "isHandlingAction (recordCurrentTrack cfg s) = isHandlingAction s"
  "lastPlayedByUsUri (recordCurrentTrack cfg s) = lastPlayedByUsUri s"
  "savedVolume (recordCurrentTrack cfg s) = savedVolume s"
  "smoothSkipMuted (recordCurrentTrack cfg s) = smoothSkipMuted s"
  "lastContextUri (recordCurrentTrack cfg s) = lastContextUri s"
  "playerItem (recordCurrentTrack cfg s) = playerItem s"
  "playerContext (recordCurrentTrack cfg s) = playerContext s"
  "playerShuffle (recordCurrentTrack cfg s) = playerShuffle s"
  "playerVolume (recordCurrentTrack cfg s) = playerVolume s"
  "issued (recordCurrentTrack cfg s) = issued s"
  by (simp_all add: recordCurrentTrack_def Let_def split: option.splits)

lemma pushToNavigation_fields:
  "playHistory (pushToNavigation cfg u s) = playHistory s"
  "currentPlaylistUri (pushToNavigation cfg u s) = currentPlaylistUri s"
  "currentPlaylistTracks (pushToNavigation cfg u s) = currentPlaylistTracks s"
  "isActive (pushToNavigation cfg u s) = isActive s"
  "skipCounter (pushToNavigation cfg u s) = skipCounter s"
  "isNativePassSkip (pushToNavigation cfg u s) = isNativePassSkip s"
  "isHandlingAction (pushToNavigation cfg u s) = isHandlingAction s"
  "lastPlayedByUsUri (pushToNavigation cfg u s) = lastPlayedByUsUri s"
  "savedVolume (pushToNavigation cfg u s) = savedVolume s"
  "smoothSkipMuted (pushToNavigation cfg u s) = smoothSkipMuted s"
  "lastContextUri (pushToNavigation cfg u s) = lastContextUri s"
  "playerItem (pushToNavigation cfg u s) = playerItem s"
  "playerContext (pushToNavigation cfg u s) = playerContext s"
  "playerShuffle (pushToNavigation cfg u s) = playerShuffle s"
  "playerVolume (pushToNavigation cfg u s) = playerVolume s"
  "issued (pushToNavigation cfg u s) = issued s"
  by (simp_all add: pushToNavigation_def Let_def split: option.splits)

section \<open>The navigation history\<close>

lemma cursor_valid_cong:
  "navigationHistory t = navigationHistory s \<Longrightarrow> navigationIndex t = navigationIndex s \<Longrightarrow>
   cursor_valid t = cursor_valid s"
  by (simp add: cursor_valid_def)

lemma cursor_valid_push: "cursor_valid s \<Longrightarrow> cursor_valid (pushToNavigation cfg u s)"
  by (auto simp: pushToNavigation_def cursor_valid_def Let_def slice0_def split: option.splits)

lemma cursor_valid_push_any: "truthy u \<Longrightarrow> cursor_valid (pushToNavigation cfg u s)"
  by (auto simp: pushToNavigation_def cursor_valid_def Let_def slice0_def truthy_def split: option.splits)


lemma cursor_valid_play: "cursor_valid (snd (playTrackInContext ok u s)) = cursor_valid s"
  by (rule cursor_valid_cong) (simp_all add: playTrackInContext_fields)

lemma pickLoop_invariant:
  fixes P :: "state \<Rightarrow> bool"
  assumes init: "P s"
    and play: "\<And>ok u t. P t \<Longrightarrow> P (snd (playTrackInContext ok u t))"
    and push: "\<And>u t. P t \<Longrightarrow> P (pushToNavigation cfg u t)"
    and hist: "\<And>e t. P t \<Longrightarrow> P (t\<lparr> playHistory := e # playHistory t \<rparr>)"
  shows "P (pickLoop cfg okPick rnd attempt s)"
  using init
proof (induction "3 - attempt" arbitrary: attempt s)
  case 0
  then show ?case by (simp add: pickLoop.simps [of cfg okPick rnd attempt s])
next
  case (Suc n)
  then have lt: "attempt < 3" and n: "n = 3 - (attempt + 1)" by arith+
  show ?case
  proof (cases "pickNextTrack cfg (rnd attempt) (currentPlaylistTracks s) (playHistory s)")
    case None
    with lt Suc.prems show ?thesis by (simp add: pickLoop.simps [of cfg okPick rnd attempt s])
  next
    case (Some t)
    obtain ok s1 where p: "playTrackInContext (okPick attempt) (Some (uri t)) s = (ok, s1)"
      by (cases "playTrackInContext (okPick attempt) (Some (uri t)) s")
    have v1: "P s1"
      using play [OF Suc.prems, of "okPick attempt" "Some (uri t)"] p by simp
    show ?thesis
    proof (cases ok)
      case True
      with lt Some p push [OF v1, of "Some (uri t)"] show ?thesis
        by (simp add: pickLoop.simps [of cfg okPick rnd attempt s])
    next
      case False
      from Suc.hyps(1) [OF n hist [OF v1, of "failedEntry t"]]
      show ?thesis using lt Some p False
        by (simp add: pickLoop.simps [of cfg okPick rnd attempt s])
    qed
  qed
qed

lemma playTrackInContext_issued:
  "\<exists>es. issued (snd (playTrackInContext ok u s)) = issued s @ es \<and> NativeSkipIn50 \<notin> set es"
  by (auto simp: playTrackInContext_def restoreVolume_def setVolume_def emit_def Let_def
      split: option.splits)

lemma pickLoop_fields:
  "skipCounter (pickLoop cfg okPick rnd a s) = skipCounter s"
  "isNativePassSkip (pickLoop cfg okPick rnd a s) = isNativePassSkip s"
  "isHandlingAction (pickLoop cfg okPick rnd a s) = isHandlingAction s"
  "currentPlaylistTracks (pickLoop cfg okPick rnd a s) = currentPlaylistTracks s"
  "currentPlaylistUri (pickLoop cfg okPick rnd a s) = currentPlaylistUri s"
  "playerContext (pickLoop cfg okPick rnd a s) = playerContext s"
  "playerItem (pickLoop cfg okPick rnd a s) = playerItem s"
  "isActive (pickLoop cfg okPick rnd a s) = isActive s"
  "lastContextUri (pickLoop cfg okPick rnd a s) = lastContextUri s"
  by (rule pickLoop_invariant; simp add: playTrackInContext_fields pushToNavigation_fields)+

lemma pickLoop_issued:
  "\<exists>es. issued (pickLoop cfg okPick rnd a s) = issued s @ es \<and> NativeSkipIn50 \<notin> set es"
proof (rule pickLoop_invariant)
  show "\<exists>es. issued s = issued s @ es \<and> NativeSkipIn50 \<notin> set es" by simp
next
  fix ok u and t :: state
  assume "\<exists>es. issued t = issued s @ es \<and> NativeSkipIn50 \<notin> set es"
  then obtain es where es: "issued t = issued s @ es" "NativeSkipIn50 \<notin> set es" by blast
  from playTrackInContext_issued [of ok u t] obtain fs where
    "issued (snd (playTrackInContext ok u t)) = issued t @ fs" "NativeSkipIn50 \<notin> set fs" by blast
  with es have "issued (snd (playTrackInContext ok u t)) = issued s @ (es @ fs) \<and>
      NativeSkipIn50 \<notin> set (es @ fs)" by simp
  then show "\<exists>es. issued (snd (playTrackInContext ok u t)) = issued s @ es \<and> NativeSkipIn50 \<notin> set es"
    by blast
qed (simp_all add: pushToNavigation_fields)

lemma cursor_valid_pickLoop: "cursor_valid s \<Longrightarrow> cursor_valid (pickLoop cfg okPick rnd attempt s)"
  by (rule pickLoop_invariant) (simp_all add: cursor_valid_play cursor_valid_push, simp add: cursor_valid_def)

lemma cursor_valid_replayForward:
  "cursor_valid s \<Longrightarrow> cursor_valid (snd (replayForward okReplay s))"
proof -
  assume v: "cursor_valid s"
  show ?thesis
  proof (cases "navigationIndex s < int (length (navigationHistory s)) - 1")
    case False
    with v show ?thesis by (simp add: replayForward_def)
  next
    case True
    let ?s1 = "s\<lparr> navigationIndex := navigationIndex s + 1 \<rparr>"
    let ?u = "js_index (navigationHistory ?s1) (navigationIndex ?s1)"
    obtain ok s2 where p: "playTrackInContext okReplay ?u ?s1 = (ok, s2)"
      by (cases "playTrackInContext okReplay ?u ?s1")
    have nav: "navigationHistory s2 = navigationHistory s"
      and idx: "navigationIndex s2 = navigationIndex s + 1"
      using playTrackInContext_fields(2,3) [of okReplay ?u ?s1] p by simp_all
    from v True have "cursor_valid s2"
      by (auto simp: cursor_valid_def nav idx split: if_splits)
    moreover have "cursor_valid (s2\<lparr> navigationIndex := navigationIndex s2 - 1 \<rparr>)"
      using v by (simp add: cursor_valid_def nav idx)
    ultimately show ?thesis using True p
      by (simp add: replayForward_def Let_def)
  qed
qed

lemma ensurePlaylistLoaded_nav:
  "navigationHistory (snd (ensurePlaylistLoaded contents s)) = navigationHistory s"
  "navigationIndex (snd (ensurePlaylistLoaded contents s)) = navigationIndex s"
  by (simp_all add: ensurePlaylistLoaded_def Let_def split: option.splits)

lemma cursor_valid_handleSkipForward:
  assumes v: "cursor_valid s"
  shows "cursor_valid (handleSkipForward cfg contents okReplay okPick rnd s)"
proof (cases "isHandlingAction s")
  case True
  with v show ?thesis by (simp add: handleSkipForward_def)
next
  case False
  obtain loaded s1 where e: "ensurePlaylistLoaded contents (s\<lparr> isHandlingAction := True \<rparr>) = (loaded, s1)"
    by (cases "ensurePlaylistLoaded contents (s\<lparr> isHandlingAction := True \<rparr>)")
  have v1: "cursor_valid s1"
    using ensurePlaylistLoaded_nav [of contents "s\<lparr> isHandlingAction := True \<rparr>"] e v
    by (simp add: cursor_valid_def)
  obtain returned s2 where r: "replayForward okReplay (recordCurrentTrack cfg s1) = (returned, s2)"
    by (cases "replayForward okReplay (recordCurrentTrack cfg s1)")
  have "cursor_valid (recordCurrentTrack cfg s1)"
    using v1 by (simp add: cursor_valid_def recordCurrentTrack_fields)
  from cursor_valid_replayForward [OF this, of okReplay] r have v2: "cursor_valid s2" by simp
  then have v3: "cursor_valid (s2\<lparr> skipCounter := skipCounter s2 + 1 \<rparr>)"
    by (simp add: cursor_valid_def)
  have v4: "cursor_valid (nativePassThrough (s2\<lparr> skipCounter := skipCounter s2 + 1 \<rparr>))"
    using v2 by (simp add: cursor_valid_def nativePassThrough_def emit_fields muteForSkip_fields)
  have em: "cursor_valid (emit x t) = cursor_valid t" for x t
    by (simp add: cursor_valid_def emit_fields)
  show ?thesis
    using False e r v1 v2 v4 cursor_valid_pickLoop [OF v3, of cfg okPick rnd 0]
    by (simp add: handleSkipForward_def em Let_def)
qed

lemma cursor_valid_handleSkipBack:
  assumes v: "cursor_valid s"
  shows "cursor_valid (handleSkipBack ok s)"
proof -
  have em: "cursor_valid (emit x t) = cursor_valid t" for x t
    by (simp add: cursor_valid_def emit_fields)
  show ?thesis using v
    by (auto simp: handleSkipBack_def em Let_def cursor_valid_play)
       (auto simp: cursor_valid_def split: if_splits)
qed

lemma cursor_valid_nativePick:
  assumes v: "cursor_valid s"
  shows "cursor_valid (nativePick cfg s)"
proof -
  have a: "cursor_valid (s\<lparr> isNativePassSkip := b \<rparr>)" for b
    using v by (simp add: cursor_valid_def)
  have b: "cursor_valid (restoreVolume (recordCurrentTrack cfg t)) = cursor_valid t" for t
    by (simp add: cursor_valid_def restoreVolume_fields recordCurrentTrack_fields)
  have c: "cursor_valid (emit NativeSkipIn50 (muteForSkip t)) = cursor_valid t" for t
    by (simp add: cursor_valid_def emit_fields muteForSkip_fields)
  show ?thesis
    using a by (simp add: nativePick_def Let_def b c cursor_valid_push split: option.splits)
qed

lemma cursor_valid_contextChange: "cursor_valid (contextChange cfg s)"
proof -
  have em: "cursor_valid (emit x t) = cursor_valid t" for x t
    by (simp add: cursor_valid_def emit_fields)
  have z: "cursor_valid (t\<lparr> navigationHistory := [], navigationIndex := -1 \<rparr>)" for t :: state
    by (simp add: cursor_valid_def)
  show ?thesis
    by (simp add: contextChange_def Let_def em cursor_valid_push_any split: option.splits)
       (simp add: cursor_valid_def)
qed

lemma cursor_valid_songchange:
  assumes v: "cursor_valid s"
  shows "cursor_valid (songchange cfg contents okReplay okPick rnd s)"
proof -
  have "cursor_valid (s\<lparr> lastPlayedByUsUri := None \<rparr>)"
    using v by (simp add: cursor_valid_def)
  then show ?thesis
    using v by (simp add: songchange_def cursor_valid_nativePick cursor_valid_contextChange
        cursor_valid_handleSkipForward)
qed


lemma cursor_valid_entry_points:
  assumes v: "cursor_valid s"
  shows "cursor_valid (Player_next cfg contents okReplay okPick rnd s)"
    and "cursor_valid (skipToNext cfg contents okReplay okPick rnd s)"
    and "cursor_valid (Player_back ok s)"
    and "cursor_valid (skipToPrevious ok s)"
proof -
  have em: "cursor_valid (emit x t) = cursor_valid t" for x t
    by (simp add: cursor_valid_def emit_fields)
  have m: "cursor_valid (muteForSkip s)"
    using v by (simp add: cursor_valid_def muteForSkip_fields)
  show "cursor_valid (Player_next cfg contents okReplay okPick rnd s)"
    using v m by (simp add: Player_next_def em cursor_valid_handleSkipForward)
  show "cursor_valid (skipToNext cfg contents okReplay okPick rnd s)"
    using v m by (simp add: skipToNext_def em cursor_valid_handleSkipForward)
  show "cursor_valid (Player_back ok s)"
    using v by (simp add: Player_back_def em cursor_valid_handleSkipBack)
  show "cursor_valid (skipToPrevious ok s)"
    using v by (simp add: skipToPrevious_def em cursor_valid_handleSkipBack)
qed

text \<open>
  When no handler runs while another is suspended, the cursor stays valid: it is -1
  when the navigation history is empty and an index into it otherwise when the script
  starts and after a context change, and a push, the forward step of a forward skip,
  the back step of a back skip, the songchange listener and the patched entry points
  keep it so, whatever the host answers.
\<close>

lemma cursor_valid_sequential:
  "cursor_valid (initial it ctx sh vol) \<and>
   cursor_valid (contextChange cfg s0) \<and>
   (cursor_valid s \<longrightarrow>
      cursor_valid (pushToNavigation cfg u s) \<and>
      cursor_valid (snd (replayForward okReplay s)) \<and>
      cursor_valid (handleSkipForward cfg contents okReplay okPick rnd s) \<and>
      cursor_valid (handleSkipBack ok s) \<and>
      cursor_valid (songchange cfg contents okReplay okPick rnd s) \<and>
      cursor_valid (Player_next cfg contents okReplay okPick rnd s) \<and>
      cursor_valid (skipToNext cfg contents okReplay okPick rnd s) \<and>
      cursor_valid (Player_back ok s) \<and>
      cursor_valid (skipToPrevious ok s))"
proof -
  have "cursor_valid (initial it ctx sh vol)"
    by (simp add: cursor_valid_def initial_def)
  then show ?thesis
    by (simp add: cursor_valid_contextChange cursor_valid_push cursor_valid_replayForward
        cursor_valid_handleSkipForward cursor_valid_handleSkipBack cursor_valid_songchange
        cursor_valid_entry_points)
qed

text \<open>
  C7. Pushing a track identity (a non-empty URI) onto a navigation history whose cursor
  is at least -1 keeps the entries up to the cursor only, appends the identity, drops
  entries from the front until at most \<^verbatim>\<open>HISTORY_SIZE\<close> remain, and leaves the cursor on
  the last entry: nothing that was after the cursor is in the sequence any more and
  nothing lies forward of the new cursor.
\<close>

theorem C7_push_truncates:
  assumes "- 1 \<le> navigationIndex s" and "v \<noteq> []"
  shows "navigationHistory (pushToNavigation cfg (Some v) s) =
           drop (length (take (nat (navigationIndex s + 1)) (navigationHistory s) @ [v]) - HISTORY_SIZE cfg)
             (take (nat (navigationIndex s + 1)) (navigationHistory s) @ [v]) \<and>
         navigationIndex (pushToNavigation cfg (Some v) s) =
           int (length (navigationHistory (pushToNavigation cfg (Some v) s))) - 1 \<and>
         length (navigationHistory (pushToNavigation cfg (Some v) s)) \<le> HISTORY_SIZE cfg"
proof -
  let ?nav = "navigationHistory s"
  let ?kept = "take (nat (navigationIndex s + 1)) ?nav"
  have sl: "slice0 ?nav (navigationIndex s + 1) = ?kept"
    using assms(1) by (simp add: slice0_def)
  have tail: "?kept = ?nav" if "\<not> navigationIndex s < int (length ?nav) - 1"
    using that by simp
  have nav: "(if navigationIndex s < int (length ?nav) - 1
              then slice0 ?nav (navigationIndex s + 1) else ?nav) = ?kept"
    using sl tail by simp
  show ?thesis
    using assms(2) by (simp add: pushToNavigation_def Let_def nav) arith
qed

theorem C7_push_truncates_witness:
  "navigationHistory (pushToNavigation CONFIG (Some ''spotify:track:d'') exState) =
     [''spotify:track:a'', ''spotify:track:b'', ''spotify:track:d''] \<and>
   navigationIndex (pushToNavigation CONFIG (Some ''spotify:track:d'') exState) = 2 \<and>
   navigationHistory (pushToNavigation (CONFIG\<lparr> HISTORY_SIZE := 2 \<rparr>) (Some ''spotify:track:d'') exState) =
     [''spotify:track:b'', ''spotify:track:d''] \<and>
   navigationIndex (pushToNavigation (CONFIG\<lparr> HISTORY_SIZE := 2 \<rparr>) (Some ''spotify:track:d'') exState) = 1"
proof -
  have h: "- 1 \<le> navigationIndex exState" "''spotify:track:d'' \<noteq> []"
    by (simp_all add: exState_def)
  from C7_push_truncates [OF h, of CONFIG] C7_push_truncates [OF h, of "CONFIG\<lparr> HISTORY_SIZE := 2 \<rparr>"]
  show ?thesis
    by (simp add: exState_def CONFIG_def)
qed

lemma replayForward_fail:
  "fst (replayForward False s) = False"
  "navigationIndex (snd (replayForward False s)) = navigationIndex s"
  "navigationHistory (snd (replayForward False s)) = navigationHistory s"
proof -
  let ?s1 = "s\<lparr> navigationIndex := navigationIndex s + 1 \<rparr>"
  let ?u = "js_index (navigationHistory ?s1) (navigationIndex ?s1)"
  obtain ok s2 where p: "playTrackInContext False ?u ?s1 = (ok, s2)"
    by (cases "playTrackInContext False ?u ?s1")
  have ok: "\<not> ok"
    using p by (auto simp: playTrackInContext_def Let_def split: option.splits)
  have f: "navigationHistory s2 = navigationHistory s" "navigationIndex s2 = navigationIndex s + 1"
    using playTrackInContext_fields(2,3) [of False ?u ?s1] p by simp_all
  show "fst (replayForward False s) = False"
    using p ok by (simp add: replayForward_def Let_def)
  show "navigationIndex (snd (replayForward False s)) = navigationIndex s"
    using p ok f by (simp add: replayForward_def Let_def)
  show "navigationHistory (snd (replayForward False s)) = navigationHistory s"
    using p ok f by (simp add: replayForward_def Let_def)
qed

lemma handleSkipBack_index:
  assumes "\<not> isHandlingAction s" and "0 < navigationIndex s"
  shows "navigationIndex (handleSkipBack ok s) = navigationIndex s - 1"
  using assms by (simp add: handleSkipBack_def Let_def emit_fields playTrackInContext_fields)


section \<open>The re-entrancy guard\<close>

text \<open>While the guard is held, a skip request and a track-changed event are dropped: the
  handlers return the state as it is.  The properties below are about requests and
  events that are handled.\<close>

lemma guarded_dropped:
  assumes "isHandlingAction s"
  shows "handleSkipForward cfg contents okReplay okPick rnd s = s"
    and "handleSkipBack ok s = s"
    and "songchange cfg contents okReplay okPick rnd s = s"
  using assms by (simp_all add: handleSkipForward_def handleSkipBack_def songchange_def)

section \<open>The forward skip at the tail\<close>

lemma ensurePlaylistLoaded_fields:
  "playHistory (snd (ensurePlaylistLoaded contents s)) = playHistory s"
  "isActive (snd (ensurePlaylistLoaded contents s)) = isActive s"
  "skipCounter (snd (ensurePlaylistLoaded contents s)) = skipCounter s"
  "isNativePassSkip (snd (ensurePlaylistLoaded contents s)) = isNativePassSkip s"
  "isHandlingAction (snd (ensurePlaylistLoaded contents s)) = isHandlingAction s"
  "lastPlayedByUsUri (snd (ensurePlaylistLoaded contents s)) = lastPlayedByUsUri s"
  "savedVolume (snd (ensurePlaylistLoaded contents s)) = savedVolume s"
  "smoothSkipMuted (snd (ensurePlaylistLoaded contents s)) = smoothSkipMuted s"
  "lastContextUri (snd (ensurePlaylistLoaded contents s)) = lastContextUri s"
  "playerItem (snd (ensurePlaylistLoaded contents s)) = playerItem s"
  "playerContext (snd (ensurePlaylistLoaded contents s)) = playerContext s"
  "playerShuffle (snd (ensurePlaylistLoaded contents s)) = playerShuffle s"
  "playerVolume (snd (ensurePlaylistLoaded contents s)) = playerVolume s"
  "issued (snd (ensurePlaylistLoaded contents s)) = issued s"
  by (simp_all add: ensurePlaylistLoaded_def Let_def split: option.splits)

lemma ensurePlaylistLoaded_True:
  assumes "fst (ensurePlaylistLoaded contents s)"
  shows "\<exists>ts c. currentPlaylistTracks (snd (ensurePlaylistLoaded contents s)) = Some ts \<and> ts \<noteq> [] \<and>
           getContextUri (snd (ensurePlaylistLoaded contents s)) = Some c"
proof (cases "getContextUri s")
  case None
  with assms show ?thesis by (simp add: ensurePlaylistLoaded_def)
next
  case (Some c)
  have "getContextUri (snd (ensurePlaylistLoaded contents s)) = Some c"
    using Some by (simp add: getContextUri_def ensurePlaylistLoaded_fields)
  moreover have "\<exists>ts. currentPlaylistTracks (snd (ensurePlaylistLoaded contents s)) = Some ts \<and> ts \<noteq> []"
    using assms Some by (simp add: ensurePlaylistLoaded_def Let_def split: option.splits if_splits)
  ultimately show ?thesis by blast
qed

lemma replayForward_tail:
  "\<not> navigationIndex s < int (length (navigationHistory s)) - 1 \<Longrightarrow> replayForward ok s = (False, s)"
  by (simp add: replayForward_def)

lemma handleSkipForward_run:
  assumes "\<not> isHandlingAction s"
    and "fst (ensurePlaylistLoaded contents (s\<lparr> isHandlingAction := True \<rparr>))"
    and "\<not> fst (replayForward okReplay
            (recordCurrentTrack cfg (snd (ensurePlaylistLoaded contents (s\<lparr> isHandlingAction := True \<rparr>)))))"
  shows "handleSkipForward cfg contents okReplay okPick rnd s =
     emit ReleaseGuardIn1500
       (let s2 = snd (replayForward okReplay
                   (recordCurrentTrack cfg (snd (ensurePlaylistLoaded contents (s\<lparr> isHandlingAction := True \<rparr>)))));
            s3 = s2\<lparr> skipCounter := skipCounter s2 + 1 \<rparr>
        in if skipCounter s3 mod TRUE_SHUFFLE_EVERY cfg \<noteq> 0 then nativePassThrough s3
           else pickLoop cfg okPick rnd 0 s3)"
  using assms by (simp add: handleSkipForward_def Let_def case_prod_beta)


lemma playTrackInContext_Some:
  assumes "getContextUri s = Some c"
  shows "playTrackInContext ok u s =
           (ok, restoreVolume (if ok then emit (Play c u) (s\<lparr> lastPlayedByUsUri := u \<rparr>)
                               else (emit (Play c u) s)\<lparr> lastPlayedByUsUri := None \<rparr>))"
  using assms by (simp add: playTrackInContext_def Let_def emit_def)

lemma restoreVolume_issued:
  "issued (restoreVolume s) =
     issued s @ (case savedVolume s of None \<Rightarrow> []
                 | Some v \<Rightarrow> if smoothSkipMuted s then [SetVolume v] else [])"
  by (simp add: restoreVolume_def setVolume_def emit_def split: option.splits)

lemma restoreVolume_issued_ex:
  "\<exists>es. issued (restoreVolume s) = issued s @ es \<and> NativeSkipIn50 \<notin> set es \<and>
        (\<forall>e \<in> set es. \<not> isPlay e)"
  by (auto simp: restoreVolume_issued split: option.splits)

lemma pickLoop_first:
  assumes c: "getContextUri s = Some c"
    and t: "pickNextTrack cfg (rnd 0) (currentPlaylistTracks s) (playHistory s) = Some t"
  shows "\<exists>es. issued (pickLoop cfg okPick rnd 0 s) = issued s @ Play c (Some (uri t)) # es \<and>
              NativeSkipIn50 \<notin> set es"
proof -
  let ?s0 = "if okPick 0 then emit (Play c (Some (uri t))) (s\<lparr> lastPlayedByUsUri := Some (uri t) \<rparr>)
             else (emit (Play c (Some (uri t))) s)\<lparr> lastPlayedByUsUri := None \<rparr>"
  let ?s1 = "restoreVolume ?s0"
  have p: "playTrackInContext (okPick 0) (Some (uri t)) s = (okPick 0, ?s1)"
    by (rule playTrackInContext_Some [OF c])
  from restoreVolume_issued_ex [of ?s0] obtain rs where
    rs: "issued ?s1 = issued s @ Play c (Some (uri t)) # rs" "NativeSkipIn50 \<notin> set rs"
    by (auto simp: emit_fields)
  show ?thesis
  proof (cases "okPick 0")
    case True
    then have "pickLoop cfg okPick rnd 0 s = pushToNavigation cfg (Some (uri t)) ?s1"
      using t p by (simp add: pickLoop.simps [of cfg okPick rnd 0 s])
    with rs show ?thesis by (simp add: pushToNavigation_fields)
  next
    case False
    let ?s2 = "?s1\<lparr> playHistory := failedEntry t # playHistory ?s1 \<rparr>"
    from False have eq: "pickLoop cfg okPick rnd 0 s = pickLoop cfg okPick rnd (0 + 1) ?s2"
      using t p by (simp add: pickLoop.simps [of cfg okPick rnd 0 s])
    from pickLoop_issued [of cfg okPick rnd "0 + 1" ?s2] obtain es where
      "issued (pickLoop cfg okPick rnd (0 + 1) ?s2) = issued ?s2 @ es" "NativeSkipIn50 \<notin> set es"
      by blast
    with rs eq have "issued (pickLoop cfg okPick rnd 0 s) = issued s @ Play c (Some (uri t)) # (rs @ es) \<and>
        NativeSkipIn50 \<notin> set (rs @ es)" by simp
    then show ?thesis by blast
  qed
qed

lemma recordCurrentTrack_playHistory_cong:
  "playerItem t = playerItem s \<Longrightarrow> playHistory t = playHistory s \<Longrightarrow>
   playHistory (recordCurrentTrack cfg t) = playHistory (recordCurrentTrack cfg s)"
  by (simp add: recordCurrentTrack_def Let_def split: option.splits)

text \<open>
  C5. A forward skip that is handled (the guard is free and the playlist is available)
  with the navigation cursor at the tail increments the skip counter, and it is a native
  pass-through (the pending-native flag is set, the guard is released, output is muted
  and the native skip is scheduled; no play command is issued) exactly when the
  incremented counter is not divisible by \<^verbatim>\<open>TRUE_SHUFFLE_EVERY\<close>; otherwise its first
  effect is the play command for the track that the weighted selector returns.  A
  context change resets the counter to 0, and with \<^verbatim>\<open>TRUE_SHUFFLE_EVERY = 3\<close> the skips
  at counter 0 and 1 are native pass-throughs and the skip at counter 2 is not.
\<close>

theorem C5_native_cadence:
  assumes guard: "\<not> isHandlingAction s"
    and loaded: "fst (ensurePlaylistLoaded contents (s\<lparr> isHandlingAction := True \<rparr>))"
    and tail: "\<not> navigationIndex s < int (length (navigationHistory s)) - 1"
  shows "skipCounter (handleSkipForward cfg contents okReplay okPick rnd s) = skipCounter s + 1 \<and>
    (NativeSkipIn50 \<in> set (newEffects s (handleSkipForward cfg contents okReplay okPick rnd s))
       \<longleftrightarrow> (skipCounter s + 1) mod TRUE_SHUFFLE_EVERY cfg \<noteq> 0) \<and>
    ((skipCounter s + 1) mod TRUE_SHUFFLE_EVERY cfg \<noteq> 0 \<longrightarrow>
       isNativePassSkip (handleSkipForward cfg contents okReplay okPick rnd s) \<and>
       \<not> isHandlingAction (handleSkipForward cfg contents okReplay okPick rnd s) \<and>
       newEffects s (handleSkipForward cfg contents okReplay okPick rnd s) =
         [SetVolume 0, NativeSkipIn50, ReleaseGuardIn1500]) \<and>
    ((skipCounter s + 1) mod TRUE_SHUFFLE_EVERY cfg = 0 \<longrightarrow>
       (\<exists>t c es.
          pickNextTrack cfg (rnd 0)
            (currentPlaylistTracks (snd (ensurePlaylistLoaded contents s)))
            (playHistory (recordCurrentTrack cfg s)) = Some t \<and>
          newEffects s (handleSkipForward cfg contents okReplay okPick rnd s) =
            Play c (Some (uri t)) # es \<and>
          NativeSkipIn50 \<notin> set es)) \<and>
    (TRUE_SHUFFLE_EVERY cfg = 3 \<longrightarrow>
       (skipCounter s = 0 \<or> skipCounter s = 1 \<longrightarrow>
          NativeSkipIn50 \<in> set (newEffects s (handleSkipForward cfg contents okReplay okPick rnd s))) \<and>
       (skipCounter s = 2 \<longrightarrow>
          NativeSkipIn50 \<notin> set (newEffects s (handleSkipForward cfg contents okReplay okPick rnd s)))) \<and>
    skipCounter (contextChange cfg s0) = 0"
proof -
  let ?g = "s\<lparr> isHandlingAction := True \<rparr>"
  let ?s1 = "snd (ensurePlaylistLoaded contents ?g)"
  let ?s2 = "recordCurrentTrack cfg ?s1"
  let ?s3 = "?s2\<lparr> skipCounter := skipCounter ?s2 + 1 \<rparr>"
  let ?h = "handleSkipForward cfg contents okReplay okPick rnd s"
  let ?native = "(skipCounter s + 1) mod TRUE_SHUFFLE_EVERY cfg \<noteq> 0"
  have tail2: "\<not> navigationIndex ?s2 < int (length (navigationHistory ?s2)) - 1"
    using tail by (simp add: recordCurrentTrack_fields ensurePlaylistLoaded_nav)
  have rf: "replayForward okReplay ?s2 = (False, ?s2)"
    by (rule replayForward_tail [OF tail2])
  have cnt: "skipCounter ?s2 = skipCounter s"
    by (simp add: recordCurrentTrack_fields ensurePlaylistLoaded_fields)
  have iss: "issued ?s2 = issued s"
    by (simp add: recordCurrentTrack_fields ensurePlaylistLoaded_fields)
  have run: "?h = emit ReleaseGuardIn1500
                (if ?native then nativePassThrough ?s3 else pickLoop cfg okPick rnd 0 ?s3)"
    using handleSkipForward_run [OF guard loaded, of okReplay cfg okPick rnd] rf cnt
    by (simp add: Let_def)
  have A: "skipCounter ?h = skipCounter s + 1"
    by (simp add: run emit_fields nativePassThrough_def muteForSkip_fields pickLoop_fields cnt)
  have nat_eff: "newEffects s ?h = [SetVolume 0, NativeSkipIn50, ReleaseGuardIn1500]"
    and nat_flag: "isNativePassSkip ?h" "\<not> isHandlingAction ?h" if ?native
    using that
    by (simp_all add: run newEffects_def emit_fields nativePassThrough_def muteForSkip_fields iss)
  from ensurePlaylistLoaded_True [OF loaded] obtain ts c where
    ts: "currentPlaylistTracks ?s1 = Some ts" "ts \<noteq> []" and c: "getContextUri ?s1 = Some c"
    by blast
  have tr: "currentPlaylistTracks ?s1 = currentPlaylistTracks (snd (ensurePlaylistLoaded contents s))"
    by (simp add: ensurePlaylistLoaded_def Let_def getContextUri_def split: option.splits)
  have ph: "playHistory ?s3 = playHistory (recordCurrentTrack cfg s)"
    using recordCurrentTrack_playHistory_cong [of ?s1 s cfg]
    by (simp add: ensurePlaylistLoaded_fields)
  have c3: "getContextUri ?s3 = Some c"
    using c by (simp add: getContextUri_def recordCurrentTrack_fields)
  have t3: "currentPlaylistTracks ?s3 = Some ts"
    using ts by (simp add: recordCurrentTrack_fields)
  from pickNextTrack_nonempty [OF ts(2), of cfg "rnd 0" "playHistory ?s3"] obtain t where
    t: "pickNextTrack cfg (rnd 0) (Some ts) (playHistory ?s3) = Some t" by blast
  from pickLoop_first [OF c3, of cfg rnd t okPick] t t3 obtain es where
    es: "issued (pickLoop cfg okPick rnd 0 ?s3) = issued s @ Play c (Some (uri t)) # es"
      "NativeSkipIn50 \<notin> set es"
    by (auto simp: iss)
  have pick_eff: "newEffects s ?h = Play c (Some (uri t)) # (es @ [ReleaseGuardIn1500])" if "\<not> ?native"
    using that es by (simp add: run newEffects_def emit_fields)
  have D: "\<exists>t c es.
          pickNextTrack cfg (rnd 0)
            (currentPlaylistTracks (snd (ensurePlaylistLoaded contents s)))
            (playHistory (recordCurrentTrack cfg s)) = Some t \<and>
          newEffects s ?h = Play c (Some (uri t)) # es \<and> NativeSkipIn50 \<notin> set es" if "\<not> ?native"
  proof -
    have "pickNextTrack cfg (rnd 0)
            (currentPlaylistTracks (snd (ensurePlaylistLoaded contents s)))
            (playHistory (recordCurrentTrack cfg s)) = Some t"
      using t ts tr ph by simp
    moreover have "NativeSkipIn50 \<notin> set (es @ [ReleaseGuardIn1500])" using es by simp
    ultimately show ?thesis using pick_eff [OF that] by blast
  qed
  have B: "NativeSkipIn50 \<in> set (newEffects s ?h) \<longleftrightarrow> ?native"
  proof (cases ?native)
    case True
    with nat_eff show ?thesis by simp
  next
    case False
    with pick_eff es show ?thesis by simp
  qed
  have E: "skipCounter (contextChange cfg s0) = 0"
    by (simp add: contextChange_def Let_def emit_fields pushToNavigation_fields split: option.splits)
  have S: "TRUE_SHUFFLE_EVERY cfg = 3 \<longrightarrow>
       (skipCounter s = 0 \<or> skipCounter s = 1 \<longrightarrow> NativeSkipIn50 \<in> set (newEffects s ?h)) \<and>
       (skipCounter s = 2 \<longrightarrow> NativeSkipIn50 \<notin> set (newEffects s ?h))"
    unfolding B by auto
  from A B nat_eff nat_flag D E S show ?thesis by simp
qed

lemma exState_loaded:
  "fst (ensurePlaylistLoaded None (exState\<lparr> isHandlingAction := True \<rparr>))"
  "fst (ensurePlaylistLoaded None (exTail\<lparr> isHandlingAction := True \<rparr>))"
  by (simp_all add: ensurePlaylistLoaded_def getContextUri_def or_null_def truthy_def exState_def
      exTail_def initial_def)

theorem C5_native_cadence_witness:
  "skipCounter (handleSkipForward CONFIG None False (\<lambda>_. False) (\<lambda>_. 0.5) exTail) = 1 \<and>
   NativeSkipIn50 \<in> set (newEffects exTail (handleSkipForward CONFIG None False (\<lambda>_. False) (\<lambda>_. 0.5) exTail)) \<and>
   isNativePassSkip (handleSkipForward CONFIG None False (\<lambda>_. False) (\<lambda>_. 0.5) exTail) \<and>
   newEffects exTail (handleSkipForward CONFIG None False (\<lambda>_. False) (\<lambda>_. 0.5) exTail) =
     [SetVolume 0, NativeSkipIn50, ReleaseGuardIn1500]"
proof -
  have g: "\<not> isHandlingAction exTail"
    by (simp add: exTail_def exState_def initial_def)
  have t: "\<not> navigationIndex exTail < int (length (navigationHistory exTail)) - 1"
    by (simp add: exTail_def exState_def initial_def)
  have c: "skipCounter exTail = 0" "TRUE_SHUFFLE_EVERY CONFIG = 3"
    by (simp_all add: exTail_def exState_def initial_def CONFIG_def)
  from C5_native_cadence [OF g exState_loaded(2) t, of CONFIG False "\<lambda>_. False" "\<lambda>_. 0.5"] c
  show ?thesis by simp
qed

lemma replayForward_fields:
  "playHistory (snd (replayForward ok s)) = playHistory s"
  "navigationHistory (snd (replayForward ok s)) = navigationHistory s"
  "skipCounter (snd (replayForward ok s)) = skipCounter s"
  "currentPlaylistTracks (snd (replayForward ok s)) = currentPlaylistTracks s"
  "isNativePassSkip (snd (replayForward ok s)) = isNativePassSkip s"
  "isHandlingAction (snd (replayForward ok s)) = isHandlingAction s"
  "playerContext (snd (replayForward ok s)) = playerContext s"
  "playerItem (snd (replayForward ok s)) = playerItem s"
  by (simp_all add: replayForward_def Let_def case_prod_beta playTrackInContext_fields)

text \<open>
  C10. A back skip that is handled with the cursor above 0 leaves the cursor at the
  decremented position whether the play command fails or succeeds: nothing rolls it
  back.  The forward-replay step does roll back: when its play command fails the cursor
  is where it was before the step, and so it is after the whole forward skip when that
  skip falls through to a native pass-through.
\<close>

theorem C10_back_no_rollback:
  "(\<not> isHandlingAction s \<and> 0 < navigationIndex s \<longrightarrow>
      navigationIndex (handleSkipBack False s) = navigationIndex s - 1 \<and>
      navigationIndex (handleSkipBack True s) = navigationIndex s - 1) \<and>
   (navigationIndex s < int (length (navigationHistory s)) - 1 \<longrightarrow>
      replayForward False s = (False, snd (replayForward False s)) \<and>
      navigationIndex (snd (replayForward False s)) = navigationIndex s) \<and>
   (\<not> isHandlingAction s \<and>
    fst (ensurePlaylistLoaded contents (s\<lparr> isHandlingAction := True \<rparr>)) \<and>
    navigationIndex s < int (length (navigationHistory s)) - 1 \<and>
    (skipCounter s + 1) mod TRUE_SHUFFLE_EVERY cfg \<noteq> 0 \<longrightarrow>
      navigationIndex (handleSkipForward cfg contents False okPick rnd s) = navigationIndex s \<and>
      navigationHistory (handleSkipForward cfg contents False okPick rnd s) = navigationHistory s)"
proof (intro conjI impI)
  assume "\<not> isHandlingAction s \<and> 0 < navigationIndex s"
  then show "navigationIndex (handleSkipBack False s) = navigationIndex s - 1"
    and "navigationIndex (handleSkipBack True s) = navigationIndex s - 1"
    by (simp_all add: handleSkipBack_index)
next
  show "replayForward False s = (False, snd (replayForward False s))"
    using replayForward_fail(1) [of s] by (cases "replayForward False s") simp
  show "navigationIndex (snd (replayForward False s)) = navigationIndex s"
    by (rule replayForward_fail(2))
next
  assume a: "\<not> isHandlingAction s \<and>
    fst (ensurePlaylistLoaded contents (s\<lparr> isHandlingAction := True \<rparr>)) \<and>
    navigationIndex s < int (length (navigationHistory s)) - 1 \<and>
    (skipCounter s + 1) mod TRUE_SHUFFLE_EVERY cfg \<noteq> 0"
  let ?s2 = "recordCurrentTrack cfg (snd (ensurePlaylistLoaded contents (s\<lparr> isHandlingAction := True \<rparr>)))"
  let ?r = "snd (replayForward False ?s2)"
  have f: "\<not> fst (replayForward False ?s2)" by (simp add: replayForward_fail)
  have r: "navigationIndex ?r = navigationIndex s" "navigationHistory ?r = navigationHistory s"
    "skipCounter ?r = skipCounter s"
    by (simp_all add: replayForward_fail replayForward_fields recordCurrentTrack_fields
        ensurePlaylistLoaded_nav ensurePlaylistLoaded_fields)
  from a handleSkipForward_run [of s contents False cfg okPick rnd] f
  have run: "handleSkipForward cfg contents False okPick rnd s =
       emit ReleaseGuardIn1500 (nativePassThrough (?r\<lparr> skipCounter := skipCounter ?r + 1 \<rparr>))"
    by (simp add: Let_def r)
  show "navigationIndex (handleSkipForward cfg contents False okPick rnd s) = navigationIndex s"
    by (simp add: run emit_fields nativePassThrough_def muteForSkip_fields r)
  show "navigationHistory (handleSkipForward cfg contents False okPick rnd s) = navigationHistory s"
    by (simp add: run emit_fields nativePassThrough_def muteForSkip_fields r)
qed

theorem C10_back_no_rollback_witness:
  "navigationIndex (handleSkipBack False exState) = 0 \<and>
   navigationIndex (snd (replayForward False exState)) = 1 \<and>
   navigationIndex (handleSkipForward CONFIG None False (\<lambda>_. False) (\<lambda>_. 0.5) exState) = 1"
proof -
  have "\<not> isHandlingAction exState" "0 < navigationIndex exState"
    "navigationIndex exState < int (length (navigationHistory exState)) - 1"
    "(skipCounter exState + 1) mod TRUE_SHUFFLE_EVERY CONFIG \<noteq> 0"
    "navigationIndex exState = 1"
    by (simp_all add: exState_def initial_def CONFIG_def)
  with C10_back_no_rollback [of exState None CONFIG "\<lambda>_. False" "\<lambda>_. 0.5"] exState_loaded(1)
  show ?thesis by simp
qed

section \<open>Validation of a native pick\<close>

lemma restoreVolume_muted:
  assumes "smoothSkipMuted s" and "savedVolume s = Some v"
  shows "playerVolume (restoreVolume s) = v"
    and "\<not> smoothSkipMuted (restoreVolume s)"
    and "savedVolume (restoreVolume s) = None"
    and "issued (restoreVolume s) = issued s @ [SetVolume v]"
  using assms by (simp_all add: restoreVolume_def setVolume_def emit_def)


lemma recordCurrentTrack_explicit:
  assumes "currentUri s = Some u" and "u \<noteq> []"
  shows "\<exists>a. playHistory (recordCurrentTrack cfg s) =
           take (HISTORY_SIZE cfg) (\<lparr> uri = u, artistUri = a \<rparr> # filter (\<lambda>h. uri h \<noteq> u) (playHistory s))"
  using assms
  by (auto simp: recordCurrentTrack_def currentUri_def Let_def split: option.splits)

lemma songchange_native:
  "\<not> isHandlingAction s \<Longrightarrow> isNativePassSkip s \<Longrightarrow>
   songchange cfg contents okReplay okPick rnd s = nativePick cfg s"
  by (simp add: songchange_def)

text \<open>
  C6. A track-changed event that the listener handles (the guard is free) while the
  pending-native flag is set, for a new track with an identity: if the identity is
  among the first \<^verbatim>\<open>NO_REPEAT_WINDOW\<close> entries of the play history, the listener keeps
  the flag set, mutes and schedules another native skip, and changes neither history
  nor restores the volume; otherwise it clears the flag, pushes the identity onto the
  navigation history, records it at the front of the play history (removing an older
  entry for it, bounded by \<^verbatim>\<open>HISTORY_SIZE\<close>), and restores the saved volume.
\<close>

theorem C6_native_pick_validation:
  assumes guard: "\<not> isHandlingAction s" and pending: "isNativePassSkip s"
    and cur: "currentUri s = Some u" and u: "u \<noteq> []"
  shows
   "(u \<in> recentUris cfg (playHistory s) \<longrightarrow>
       isNativePassSkip (songchange cfg contents okReplay okPick rnd s) \<and>
       newEffects s (songchange cfg contents okReplay okPick rnd s) = [SetVolume 0, NativeSkipIn50] \<and>
       smoothSkipMuted (songchange cfg contents okReplay okPick rnd s) \<and>
       playerVolume (songchange cfg contents okReplay okPick rnd s) = 0 \<and>
       navigationHistory (songchange cfg contents okReplay okPick rnd s) = navigationHistory s \<and>
       navigationIndex (songchange cfg contents okReplay okPick rnd s) = navigationIndex s \<and>
       playHistory (songchange cfg contents okReplay okPick rnd s) = playHistory s) \<and>
    (u \<notin> recentUris cfg (playHistory s) \<longrightarrow>
       \<not> isNativePassSkip (songchange cfg contents okReplay okPick rnd s) \<and>
       navigationHistory (songchange cfg contents okReplay okPick rnd s) =
         navigationHistory (pushToNavigation cfg (Some u) s) \<and>
       navigationIndex (songchange cfg contents okReplay okPick rnd s) =
         navigationIndex (pushToNavigation cfg (Some u) s) \<and>
       (\<exists>a. playHistory (songchange cfg contents okReplay okPick rnd s) =
          take (HISTORY_SIZE cfg)
            (\<lparr> uri = u, artistUri = a \<rparr> # filter (\<lambda>h. uri h \<noteq> u) (playHistory s))) \<and>
       NativeSkipIn50 \<notin> set (newEffects s (songchange cfg contents okReplay okPick rnd s)) \<and>
       (smoothSkipMuted s \<and> savedVolume s = Some v \<longrightarrow>
          playerVolume (songchange cfg contents okReplay okPick rnd s) = v \<and>
          \<not> smoothSkipMuted (songchange cfg contents okReplay okPick rnd s) \<and>
          newEffects s (songchange cfg contents okReplay okPick rnd s) = [SetVolume v]))"
proof -
  let ?s' = "songchange cfg contents okReplay okPick rnd s"
  let ?f = "s\<lparr> isNativePassSkip := False \<rparr>"
  have sc: "?s' = nativePick cfg s"
    by (rule songchange_native [OF guard pending])
  have cu: "currentUri ?f = Some u" using cur by (simp add: currentUri_def)
  have collide: "?s' = emit NativeSkipIn50 (muteForSkip (?f\<lparr> isNativePassSkip := True \<rparr>))"
    if "u \<in> recentUris cfg (playHistory s)"
    using that cu u by (simp add: sc nativePick_def Let_def)
  have accept: "?s' = restoreVolume (recordCurrentTrack cfg (pushToNavigation cfg (Some u) ?f))"
    if "u \<notin> recentUris cfg (playHistory s)"
    using that cu u by (simp add: sc nativePick_def Let_def)
  have pf: "navigationHistory (pushToNavigation cfg (Some u) ?f) = navigationHistory (pushToNavigation cfg (Some u) s)"
    "navigationIndex (pushToNavigation cfg (Some u) ?f) = navigationIndex (pushToNavigation cfg (Some u) s)"
    by (simp_all add: pushToNavigation_def Let_def)
  let ?p = "pushToNavigation cfg (Some u) ?f"
  let ?r = "recordCurrentTrack cfg ?p"
  have cup: "currentUri ?p = Some u"
    using cur by (simp add: currentUri_def pushToNavigation_fields)
  from recordCurrentTrack_explicit [OF cup u, of cfg] obtain a where
    a: "playHistory ?r = take (HISTORY_SIZE cfg)
          (\<lparr> uri = u, artistUri = a \<rparr> # filter (\<lambda>h. uri h \<noteq> u) (playHistory s))"
    by (auto simp: pushToNavigation_fields)
  have iss: "issued ?r = issued s"
    by (simp add: recordCurrentTrack_fields pushToNavigation_fields)
  have mut: "smoothSkipMuted ?r = smoothSkipMuted s" "savedVolume ?r = savedVolume s"
    by (simp_all add: recordCurrentTrack_fields pushToNavigation_fields)
  have noskip: "NativeSkipIn50 \<notin> set (newEffects s (restoreVolume ?r))"
    by (simp add: newEffects_def restoreVolume_issued iss split: option.splits)
  have rest: "playerVolume (restoreVolume ?r) = v \<and> \<not> smoothSkipMuted (restoreVolume ?r) \<and>
      newEffects s (restoreVolume ?r) = [SetVolume v]"
    if "smoothSkipMuted s \<and> savedVolume s = Some v"
    using that restoreVolume_muted [of ?r v] by (simp add: mut newEffects_def iss)
  show ?thesis
  proof (intro conjI impI)
    assume c: "u \<in> recentUris cfg (playHistory s)"
    show "isNativePassSkip ?s'" "smoothSkipMuted ?s'" "playerVolume ?s' = 0"
      "navigationHistory ?s' = navigationHistory s" "navigationIndex ?s' = navigationIndex s"
      "playHistory ?s' = playHistory s"
      "newEffects s ?s' = [SetVolume 0, NativeSkipIn50]"
      by (simp_all add: collide [OF c] emit_fields muteForSkip_fields newEffects_def)
  next
    assume n: "u \<notin> recentUris cfg (playHistory s)"
    show "\<not> isNativePassSkip ?s'"
      by (simp add: accept [OF n] restoreVolume_fields recordCurrentTrack_fields pushToNavigation_fields)
    show "navigationHistory ?s' = navigationHistory (pushToNavigation cfg (Some u) s)"
      "navigationIndex ?s' = navigationIndex (pushToNavigation cfg (Some u) s)"
      by (simp_all add: accept [OF n] restoreVolume_fields recordCurrentTrack_fields pf)
    show "\<exists>a. playHistory ?s' = take (HISTORY_SIZE cfg)
            (\<lparr> uri = u, artistUri = a \<rparr> # filter (\<lambda>h. uri h \<noteq> u) (playHistory s))"
      using a by (auto simp: accept [OF n] restoreVolume_fields)
    show "NativeSkipIn50 \<notin> set (newEffects s ?s')"
      using noskip by (simp add: accept [OF n])
  next
    assume n: "u \<notin> recentUris cfg (playHistory s)" and m: "smoothSkipMuted s \<and> savedVolume s = Some v"
    from rest [OF m] show "playerVolume ?s' = v" "\<not> smoothSkipMuted ?s'"
      "newEffects s ?s' = [SetVolume v]"
      by (simp_all add: accept [OF n])
  qed
qed

theorem C6_native_pick_validation_witness:
  "navigationHistory (songchange CONFIG None False (\<lambda>_. False) (\<lambda>_. 0.5) exNative) =
     [''spotify:track:a'', ''spotify:track:b'', ''spotify:track:c'', ''spotify:track:d''] \<and>
   playerVolume (songchange CONFIG None False (\<lambda>_. False) (\<lambda>_. 0.5) exNative) = 0.8 \<and>
   \<not> smoothSkipMuted (songchange CONFIG None False (\<lambda>_. False) (\<lambda>_. 0.5) exNative) \<and>
   isNativePassSkip (songchange CONFIG None False (\<lambda>_. False) (\<lambda>_. 0.5)
      (exNative\<lparr> playerItem := Some \<lparr> data_uri = Some ''spotify:track:a'',
                                          metadata_artist_uri = None \<rparr> \<rparr>)) \<and>
   playerVolume (songchange CONFIG None False (\<lambda>_. False) (\<lambda>_. 0.5)
      (exNative\<lparr> playerItem := Some \<lparr> data_uri = Some ''spotify:track:a'',
                                          metadata_artist_uri = None \<rparr> \<rparr>)) = 0"
proof -
  let ?c = "exNative\<lparr> playerItem := Some \<lparr> data_uri = Some ''spotify:track:a'',
                                            metadata_artist_uri = None \<rparr> \<rparr>"
  have h1: "\<not> isHandlingAction exNative" "isNativePassSkip exNative"
    "currentUri exNative = Some ''spotify:track:d''" "''spotify:track:d'' \<noteq> []"
    by (simp_all add: exNative_def exTail_def exState_def initial_def currentUri_def
        muteForSkip_def setVolume_def emit_def)
  have h2: "\<not> isHandlingAction ?c" "isNativePassSkip ?c"
    "currentUri ?c = Some ''spotify:track:a''" "''spotify:track:a'' \<noteq> []"
    by (simp_all add: exNative_def exTail_def exState_def initial_def currentUri_def
        muteForSkip_def setVolume_def emit_def)
  have f1: "''spotify:track:d'' \<notin> recentUris CONFIG (playHistory exNative)"
    "smoothSkipMuted exNative \<and> savedVolume exNative = Some 0.8"
    "navigationHistory (pushToNavigation CONFIG (Some ''spotify:track:d'') exNative) =
       [''spotify:track:a'', ''spotify:track:b'', ''spotify:track:c'', ''spotify:track:d'']"
    by (simp_all add: exNative_def exTail_def exState_def initial_def recentUris_def CONFIG_def
        mkEntry_def muteForSkip_def setVolume_def emit_def pushToNavigation_def Let_def)
  have f2: "''spotify:track:a'' \<in> recentUris CONFIG (playHistory ?c)"
    by (simp add: exNative_def exTail_def exState_def initial_def recentUris_def CONFIG_def
        mkEntry_def muteForSkip_def setVolume_def emit_def)
  from C6_native_pick_validation [OF h1, of CONFIG None False "\<lambda>_. False" "\<lambda>_. 0.5" "0.8"]
       C6_native_pick_validation [OF h2, of CONFIG None False "\<lambda>_. False" "\<lambda>_. 0.5" "0.8"]
       f1 f2
  show ?thesis by simp
qed

section \<open>The True-Shuffle pick and its retries\<close>

lemma playTrackInContext_issued_Some:
  assumes "getContextUri s = Some c"
  shows "\<exists>rs. issued (snd (playTrackInContext ok u s)) = issued s @ Play c u # rs \<and>
              (\<forall>e \<in> set rs. \<not> isPlay e) \<and> NativeSkipIn50 \<notin> set rs"
proof -
  let ?s0 = "if ok then emit (Play c u) (s\<lparr> lastPlayedByUsUri := u \<rparr>)
             else (emit (Play c u) s)\<lparr> lastPlayedByUsUri := None \<rparr>"
  have i0: "issued ?s0 = issued s @ [Play c u]" by (simp add: emit_def)
  from restoreVolume_issued_ex [of ?s0] obtain rs where
    "issued (restoreVolume ?s0) = issued ?s0 @ rs" "NativeSkipIn50 \<notin> set rs" "\<forall>e \<in> set rs. \<not> isPlay e"
    by blast
  then show ?thesis
    unfolding playTrackInContext_Some [OF assms] i0 by auto
qed

lemma pushToNavigation_nav_cong:
  assumes "navigationHistory q = navigationHistory s" and "navigationIndex q = navigationIndex s"
  shows "navigationHistory (pushToNavigation cfg u q) = navigationHistory (pushToNavigation cfg u s)"
    and "navigationIndex (pushToNavigation cfg u q) = navigationIndex (pushToNavigation cfg u s)"
  using assms by (simp_all add: pushToNavigation_def Let_def split: option.splits)

lemma pickLoop_done: "\<not> a < 3 \<Longrightarrow> pickLoop cfg okPick rnd a s = s"
  by (simp add: pickLoop.simps [of cfg okPick rnd a s])

lemma pickLoop_step:
  assumes "a < 3"
    and "pickNextTrack cfg (rnd a) (currentPlaylistTracks s) (playHistory s) = Some t"
    and "getContextUri s = Some c"
  shows "pickLoop cfg okPick rnd a s =
           (if okPick a then pushToNavigation cfg (Some (uri t)) (snd (playTrackInContext True (Some (uri t)) s))
            else pickLoop cfg okPick rnd (a + 1)
                   ((snd (playTrackInContext False (Some (uri t)) s))
                      \<lparr> playHistory := failedEntry t # playHistory s \<rparr>))"
  using assms
  by (simp add: pickLoop.simps [of cfg okPick rnd a s] playTrackInContext_Some
      restoreVolume_fields emit_fields)

lemma pickLoop_outcome:
  assumes "currentPlaylistTracks s = Some ts" and "ts \<noteq> []" and "getContextUri s = Some c"
    and "a < 3"
  shows "\<exists>ps. ps \<noteq> [] \<and> a + length ps \<le> 3 \<and> set ps \<subseteq> set ts \<and>
      filter isPlay (newEffects s (pickLoop cfg okPick rnd a s)) = map (\<lambda>t. Play c (Some (uri t))) ps \<and>
      (\<forall>i<length ps. pickNextTrack cfg (rnd (a + i)) (Some ts)
           (rev (map failedEntry (take i ps)) @ playHistory s) = Some (ps ! i)) \<and>
      (\<forall>i<length ps - 1. \<not> okPick (a + i)) \<and>
      (if okPick (a + length ps - 1)
       then playHistory (pickLoop cfg okPick rnd a s) = rev (map failedEntry (butlast ps)) @ playHistory s \<and>
            navigationHistory (pickLoop cfg okPick rnd a s) =
              navigationHistory (pushToNavigation cfg (Some (uri (last ps))) s) \<and>
            navigationIndex (pickLoop cfg okPick rnd a s) =
              navigationIndex (pushToNavigation cfg (Some (uri (last ps))) s)
       else a + length ps = 3 \<and>
            playHistory (pickLoop cfg okPick rnd a s) = rev (map failedEntry ps) @ playHistory s \<and>
            navigationHistory (pickLoop cfg okPick rnd a s) = navigationHistory s \<and>
            navigationIndex (pickLoop cfg okPick rnd a s) = navigationIndex s)"
  using assms
proof (induction "3 - a" arbitrary: a s)
  case 0
  then show ?case by simp
next
  case (Suc n)
  note tr = Suc.prems(1) and ne = Suc.prems(2) and c = Suc.prems(3) and lt = Suc.prems(4)
  let ?h = "playHistory s"
  from pickNextTrack_nonempty [OF ne, of cfg "rnd a" ?h] obtain t where
    t: "t \<in> set ts" "pickNextTrack cfg (rnd a) (Some ts) ?h = Some t" by blast
  let ?u = "Some (uri t)"
  let ?q = "\<lambda>ok. snd (playTrackInContext ok ?u s)"
  have step: "pickLoop cfg okPick rnd a s =
           (if okPick a then pushToNavigation cfg ?u (?q True)
            else pickLoop cfg okPick rnd (a + 1) ((?q False)\<lparr> playHistory := failedEntry t # ?h \<rparr>))"
    using pickLoop_step [OF lt _ c, of cfg rnd t okPick] t tr by simp
  obtain rs where rs: "issued (?q (okPick a)) = issued s @ Play c ?u # rs" "\<forall>e \<in> set rs. \<not> isPlay e"
    using playTrackInContext_issued_Some [OF c, of "okPick a" ?u] by blast
  show ?case
  proof (cases "okPick a")
    case True
    let ?s' = "pushToNavigation cfg ?u (?q True)"
    have s': "pickLoop cfg okPick rnd a s = ?s'" using step True by simp
    have eff: "filter isPlay (newEffects s ?s') = [Play c ?u]"
      using rs True by (simp add: newEffects_def pushToNavigation_fields)
    have nav: "navigationHistory ?s' = navigationHistory (pushToNavigation cfg ?u s)"
      "navigationIndex ?s' = navigationIndex (pushToNavigation cfg ?u s)"
      by (rule pushToNavigation_nav_cong; simp add: playTrackInContext_fields)+
    have ph: "playHistory ?s' = ?h"
      by (simp add: pushToNavigation_fields playTrackInContext_fields)
    show ?thesis
      apply (rule exI [of _ "[t]"])
      unfolding s'
      using lt t True eff nav ph by simp
  next
    case False
    let ?s1 = "(?q False)\<lparr> playHistory := failedEntry t # ?h \<rparr>"
    have s': "pickLoop cfg okPick rnd a s = pickLoop cfg okPick rnd (a + 1) ?s1"
      using step False by simp
    have i1: "issued ?s1 = issued s @ Play c ?u # rs"
      using rs False by simp
    have f1: "currentPlaylistTracks ?s1 = Some ts" "getContextUri ?s1 = Some c"
      "navigationHistory ?s1 = navigationHistory s" "navigationIndex ?s1 = navigationIndex s"
      "playHistory ?s1 = failedEntry t # ?h"
      using tr c by (simp_all add: playTrackInContext_fields getContextUri_def)
    show ?thesis
    proof (cases "a + 1 < 3")
      case False
      with lt have a2: "a + 1 = 3" by simp
      have s'': "pickLoop cfg okPick rnd a s = ?s1"
        using s' a2 by (simp add: pickLoop_done)
      have eff: "filter isPlay (newEffects s ?s1) = [Play c ?u]"
        using rs i1 by (simp add: newEffects_def)
      show ?thesis
        apply (rule exI [of _ "[t]"])
        unfolding s''
        using a2 t \<open>\<not> okPick a\<close> eff f1 by simp
    next
      case True
      from Suc.hyps(2) have n: "n = 3 - (a + 1)" by simp
      let ?s' = "pickLoop cfg okPick rnd (a + 1) ?s1"
      from Suc.hyps(1) [OF n f1(1) ne f1(2) True] obtain ps where
        ps: "ps \<noteq> []" "a + 1 + length ps \<le> 3" "set ps \<subseteq> set ts"
          "filter isPlay (newEffects ?s1 ?s') = map (\<lambda>t. Play c (Some (uri t))) ps"
          "\<forall>i<length ps. pickNextTrack cfg (rnd (a + 1 + i)) (Some ts)
             (rev (map failedEntry (take i ps)) @ playHistory ?s1) = Some (ps ! i)"
          "\<forall>i<length ps - 1. \<not> okPick (a + 1 + i)"
          "if okPick (a + 1 + length ps - 1)
           then playHistory ?s' = rev (map failedEntry (butlast ps)) @ playHistory ?s1 \<and>
                navigationHistory ?s' = navigationHistory (pushToNavigation cfg (Some (uri (last ps))) ?s1) \<and>
                navigationIndex ?s' = navigationIndex (pushToNavigation cfg (Some (uri (last ps))) ?s1)
           else a + 1 + length ps = 3 \<and>
                playHistory ?s' = rev (map failedEntry ps) @ playHistory ?s1 \<and>
                navigationHistory ?s' = navigationHistory ?s1 \<and>
                navigationIndex ?s' = navigationIndex ?s1"
        by blast
      from pickLoop_issued [of cfg okPick rnd "a + 1" ?s1] obtain es where
        es: "issued ?s' = issued ?s1 @ es" by blast
      have eff: "filter isPlay (newEffects s ?s') = map (\<lambda>t. Play c (Some (uri t))) (t # ps)"
        using ps(4) es i1 rs(2) by (simp add: newEffects_def)
      have picks: "\<forall>i<length (t # ps). pickNextTrack cfg (rnd (a + i)) (Some ts)
             (rev (map failedEntry (take i (t # ps))) @ ?h) = Some ((t # ps) ! i)"
      proof (intro allI impI)
        fix i assume i: "i < length (t # ps)"
        show "pickNextTrack cfg (rnd (a + i)) (Some ts)
             (rev (map failedEntry (take i (t # ps))) @ ?h) = Some ((t # ps) ! i)"
        proof (cases i)
          case 0
          with t show ?thesis by simp
        next
          case (Suc j)
          with i have "j < length ps" by simp
          with ps(5) Suc show ?thesis by (simp add: f1)
        qed
      qed
      have fails: "\<forall>i<length (t # ps) - 1. \<not> okPick (a + i)"
      proof (intro allI impI)
        fix i assume i: "i < length (t # ps) - 1"
        show "\<not> okPick (a + i)"
        proof (cases i)
          case 0
          with \<open>\<not> okPick a\<close> show ?thesis by simp
        next
          case (Suc j)
          with i have "j < length ps - 1" by simp
          with ps(6) Suc show ?thesis by simp
        qed
      qed
      have pn: "navigationHistory (pushToNavigation cfg v ?s1) = navigationHistory (pushToNavigation cfg v s)"
        "navigationIndex (pushToNavigation cfg v ?s1) = navigationIndex (pushToNavigation cfg v s)" for v
        by (rule pushToNavigation_nav_cong; simp add: playTrackInContext_fields)+
      have idx: "a + length (t # ps) - 1 = a + 1 + length ps - 1" by simp
      have fin: "if okPick (a + length (t # ps) - 1)
           then playHistory ?s' = rev (map failedEntry (butlast (t # ps))) @ ?h \<and>
                navigationHistory ?s' = navigationHistory (pushToNavigation cfg (Some (uri (last (t # ps)))) s) \<and>
                navigationIndex ?s' = navigationIndex (pushToNavigation cfg (Some (uri (last (t # ps)))) s)
           else a + length (t # ps) = 3 \<and>
                playHistory ?s' = rev (map failedEntry (t # ps)) @ ?h \<and>
                navigationHistory ?s' = navigationHistory s \<and>
                navigationIndex ?s' = navigationIndex s"
        using ps(7) ps(1) unfolding idx by (simp add: f1 pn split: if_splits)
      show ?thesis
        apply (rule exI [of _ "t # ps"])
        unfolding s'
        using ps(1,2,3) t(1) eff picks fails fin by simp
    qed
  qed
qed

lemma pickLoop_outcome0:
  assumes "currentPlaylistTracks s = Some ts" and "ts \<noteq> []" and "getContextUri s = Some c"
  shows "\<exists>ps. ps \<noteq> [] \<and> length ps \<le> 3 \<and> set ps \<subseteq> set ts \<and>
      filter isPlay (newEffects s (pickLoop cfg okPick rnd 0 s)) = map (\<lambda>t. Play c (Some (uri t))) ps \<and>
      (\<forall>i<length ps. pickNextTrack cfg (rnd i) (Some ts)
           (rev (map failedEntry (take i ps)) @ playHistory s) = Some (ps ! i)) \<and>
      (\<forall>i<length ps - 1. \<not> okPick i) \<and>
      (if okPick (length ps - 1)
       then playHistory (pickLoop cfg okPick rnd 0 s) = rev (map failedEntry (butlast ps)) @ playHistory s \<and>
            navigationHistory (pickLoop cfg okPick rnd 0 s) =
              navigationHistory (pushToNavigation cfg (Some (uri (last ps))) s) \<and>
            navigationIndex (pickLoop cfg okPick rnd 0 s) =
              navigationIndex (pushToNavigation cfg (Some (uri (last ps))) s)
       else length ps = 3 \<and>
            playHistory (pickLoop cfg okPick rnd 0 s) = rev (map failedEntry ps) @ playHistory s \<and>
            navigationHistory (pickLoop cfg okPick rnd 0 s) = navigationHistory s \<and>
            navigationIndex (pickLoop cfg okPick rnd 0 s) = navigationIndex s)"
proof -
  have z: "(0::nat) < 3" by simp
  show ?thesis
    using pickLoop_outcome [OF assms z, of cfg okPick rnd] unfolding add_0 .
qed

lemma handleSkipForward_pick_outcome:
  assumes guard: "\<not> isHandlingAction s"
    and loaded: "fst (ensurePlaylistLoaded contents (s\<lparr> isHandlingAction := True \<rparr>))"
    and tail: "\<not> navigationIndex s < int (length (navigationHistory s)) - 1"
    and pick: "(skipCounter s + 1) mod TRUE_SHUFFLE_EVERY cfg = 0"
  shows "\<exists>ts c ps.
      currentPlaylistTracks (snd (ensurePlaylistLoaded contents s)) = Some ts \<and>
      getContextUri s = Some c \<and>
      ps \<noteq> [] \<and> length ps \<le> 3 \<and> set ps \<subseteq> set ts \<and>
      filter isPlay (newEffects s (handleSkipForward cfg contents okReplay okPick rnd s)) =
        map (\<lambda>t. Play c (Some (uri t))) ps \<and>
      (\<forall>i<length ps. pickNextTrack cfg (rnd i) (Some ts)
           (rev (map failedEntry (take i ps)) @ playHistory (recordCurrentTrack cfg s)) = Some (ps ! i)) \<and>
      (\<forall>i<length ps - 1. \<not> okPick i) \<and>
      (if okPick (length ps - 1)
       then playHistory (handleSkipForward cfg contents okReplay okPick rnd s) =
              rev (map failedEntry (butlast ps)) @ playHistory (recordCurrentTrack cfg s) \<and>
            navigationHistory (handleSkipForward cfg contents okReplay okPick rnd s) =
              navigationHistory (pushToNavigation cfg (Some (uri (last ps))) s) \<and>
            navigationIndex (handleSkipForward cfg contents okReplay okPick rnd s) =
              navigationIndex (pushToNavigation cfg (Some (uri (last ps))) s)
       else length ps = 3 \<and>
            playHistory (handleSkipForward cfg contents okReplay okPick rnd s) =
              rev (map failedEntry ps) @ playHistory (recordCurrentTrack cfg s) \<and>
            navigationHistory (handleSkipForward cfg contents okReplay okPick rnd s) = navigationHistory s \<and>
            navigationIndex (handleSkipForward cfg contents okReplay okPick rnd s) = navigationIndex s \<and>
            NativeSkipIn50 \<notin> set (newEffects s (handleSkipForward cfg contents okReplay okPick rnd s)) \<and>
            isNativePassSkip (handleSkipForward cfg contents okReplay okPick rnd s) = isNativePassSkip s)"
proof -
  let ?g = "s\<lparr> isHandlingAction := True \<rparr>"
  let ?s1 = "snd (ensurePlaylistLoaded contents ?g)"
  let ?s2 = "recordCurrentTrack cfg ?s1"
  let ?s3 = "?s2\<lparr> skipCounter := skipCounter ?s2 + 1 \<rparr>"
  let ?h = "handleSkipForward cfg contents okReplay okPick rnd s"
  let ?l = "pickLoop cfg okPick rnd 0 ?s3"
  have tail2: "\<not> navigationIndex ?s2 < int (length (navigationHistory ?s2)) - 1"
    using tail by (simp add: recordCurrentTrack_fields ensurePlaylistLoaded_nav)
  have rf: "replayForward okReplay ?s2 = (False, ?s2)"
    by (rule replayForward_tail [OF tail2])
  have cnt: "skipCounter ?s2 = skipCounter s"
    by (simp add: recordCurrentTrack_fields ensurePlaylistLoaded_fields)
  have run: "?h = emit ReleaseGuardIn1500 ?l"
    using handleSkipForward_run [OF guard loaded, of okReplay cfg okPick rnd] rf cnt pick
    by (simp add: Let_def)
  from ensurePlaylistLoaded_True [OF loaded] obtain ts c where
    ts: "currentPlaylistTracks ?s1 = Some ts" "ts \<noteq> []" and c: "getContextUri ?s1 = Some c"
    by blast
  have tr: "currentPlaylistTracks ?s1 = currentPlaylistTracks (snd (ensurePlaylistLoaded contents s))"
    by (simp add: ensurePlaylistLoaded_def Let_def getContextUri_def split: option.splits)
  have cs: "getContextUri s = Some c"
    using c by (simp add: getContextUri_def ensurePlaylistLoaded_fields)
  have f2: "currentPlaylistTracks ?s2 = Some ts" "getContextUri ?s2 = Some c"
    "issued ?s2 = issued s" "navigationHistory ?s2 = navigationHistory s"
    "navigationIndex ?s2 = navigationIndex s" "isNativePassSkip ?s2 = isNativePassSkip s"
    using ts c
    by (simp_all add: getContextUri_def recordCurrentTrack_fields ensurePlaylistLoaded_fields
        ensurePlaylistLoaded_nav)
  have f3: "currentPlaylistTracks ?s3 = Some ts" "getContextUri ?s3 = Some c"
    "issued ?s3 = issued s" "navigationHistory ?s3 = navigationHistory s"
    "navigationIndex ?s3 = navigationIndex s" "isNativePassSkip ?s3 = isNativePassSkip s"
    using f2 by (simp_all add: getContextUri_def)
  have ph: "playHistory ?s3 = playHistory (recordCurrentTrack cfg s)"
    using recordCurrentTrack_playHistory_cong [of ?s1 s cfg]
    by (simp add: ensurePlaylistLoaded_fields)
  have pn: "navigationHistory (pushToNavigation cfg v ?s3) = navigationHistory (pushToNavigation cfg v s)"
    "navigationIndex (pushToNavigation cfg v ?s3) = navigationIndex (pushToNavigation cfg v s)" for v
    by (rule pushToNavigation_nav_cong [OF f3(4) f3(5)])+
  from pickLoop_issued [of cfg okPick rnd 0 ?s3] obtain es where
    es: "issued ?l = issued s @ es" "NativeSkipIn50 \<notin> set es"
    by (auto simp: f2)
  have ne: "newEffects s ?h = newEffects ?s3 ?l @ [ReleaseGuardIn1500]"
    using es by (simp add: run newEffects_def emit_fields f2)
  have nn: "NativeSkipIn50 \<notin> set (newEffects s ?h)"
    using es by (simp add: run newEffects_def emit_fields)
  have fl: "isNativePassSkip ?h = isNativePassSkip s"
    by (simp add: run emit_fields pickLoop_fields f2)
  from pickLoop_outcome0 [OF f3(1) ts(2) f3(2), of cfg okPick rnd] obtain ps where
    ps: "ps \<noteq> []" "length ps \<le> 3" "set ps \<subseteq> set ts"
      "filter isPlay (newEffects ?s3 ?l) = map (\<lambda>t. Play c (Some (uri t))) ps"
      "\<forall>i<length ps. pickNextTrack cfg (rnd i) (Some ts)
           (rev (map failedEntry (take i ps)) @ playHistory ?s3) = Some (ps ! i)"
      "\<forall>i<length ps - 1. \<not> okPick i"
      "if okPick (length ps - 1)
       then playHistory ?l = rev (map failedEntry (butlast ps)) @ playHistory ?s3 \<and>
            navigationHistory ?l = navigationHistory (pushToNavigation cfg (Some (uri (last ps))) ?s3) \<and>
            navigationIndex ?l = navigationIndex (pushToNavigation cfg (Some (uri (last ps))) ?s3)
       else length ps = 3 \<and>
            playHistory ?l = rev (map failedEntry ps) @ playHistory ?s3 \<and>
            navigationHistory ?l = navigationHistory ?s3 \<and>
            navigationIndex ?l = navigationIndex ?s3"
    by blast
  have eff: "filter isPlay (newEffects s ?h) = map (\<lambda>t. Play c (Some (uri t))) ps"
    using ps(4) by (simp add: ne)
  have picks: "\<forall>i<length ps. pickNextTrack cfg (rnd i) (Some ts)
           (rev (map failedEntry (take i ps)) @ playHistory (recordCurrentTrack cfg s)) = Some (ps ! i)"
    using ps(5) unfolding ph by simp
  have fin: "if okPick (length ps - 1)
       then playHistory ?h = rev (map failedEntry (butlast ps)) @ playHistory (recordCurrentTrack cfg s) \<and>
            navigationHistory ?h = navigationHistory (pushToNavigation cfg (Some (uri (last ps))) s) \<and>
            navigationIndex ?h = navigationIndex (pushToNavigation cfg (Some (uri (last ps))) s)
       else length ps = 3 \<and>
            playHistory ?h = rev (map failedEntry ps) @ playHistory (recordCurrentTrack cfg s) \<and>
            navigationHistory ?h = navigationHistory s \<and>
            navigationIndex ?h = navigationIndex s \<and>
            NativeSkipIn50 \<notin> set (newEffects s ?h) \<and>
            isNativePassSkip ?h = isNativePassSkip s"
    using ps(7) nn fl unfolding ph pn f3 by (simp add: run emit_fields split: if_splits)
  have "currentPlaylistTracks (snd (ensurePlaylistLoaded contents s)) = Some ts"
    using ts tr by simp
  with cs ps(1,2,3) eff picks ps(6) fin show ?thesis by blast
qed









section \<open>The bound on the play history\<close>

lemma recordCurrentTrack_length:
  "length (playHistory (recordCurrentTrack cfg s)) \<le> max (HISTORY_SIZE cfg) (length (playHistory s))"
  by (auto simp: recordCurrentTrack_def Let_def split: option.splits
      intro: le_trans [OF length_filter_le])

lemma recordCurrentTrack_full:
  assumes "currentUri s = Some u" and "u \<noteq> []" and "u \<notin> uri ` set (playHistory s)"
    and "length (playHistory s) = HISTORY_SIZE cfg"
  shows "length (playHistory (recordCurrentTrack cfg s)) = HISTORY_SIZE cfg"
proof -
  have "filter (\<lambda>h. uri h \<noteq> u) (playHistory s) = playHistory s"
    using assms(3) by (auto simp: filter_id_conv)
  with assms show ?thesis
    by (auto simp: recordCurrentTrack_def currentUri_def Let_def split: option.splits)
qed

lemma exFull_hyps:
  "\<not> isHandlingAction exFull"
  "fst (ensurePlaylistLoaded None (exFull\<lparr> isHandlingAction := True \<rparr>))"
  "\<not> navigationIndex exFull < int (length (navigationHistory exFull)) - 1"
  "(skipCounter exFull + 1) mod TRUE_SHUFFLE_EVERY CONFIG = 0"
  by (simp_all add: exFull_def initial_def CONFIG_def
      ensurePlaylistLoaded_def getContextUri_def or_null_def truthy_def)

lemma exFull_recorded: "length (playHistory (recordCurrentTrack CONFIG exFull)) = 500"
proof -
  have "currentUri exFull = Some ''spotify:track:new''"
    by (simp add: exFull_def initial_def currentUri_def)
  moreover have "''spotify:track:new'' \<notin> uri ` set (playHistory exFull)"
    by (auto simp: exFull_def initial_def mkEntry_def xs_def)
  moreover have "length (playHistory exFull) = HISTORY_SIZE CONFIG"
    by (simp add: exFull_def initial_def CONFIG_def)
  ultimately have "length (playHistory (recordCurrentTrack CONFIG exFull)) = HISTORY_SIZE CONFIG"
    by (intro recordCurrentTrack_full) simp_all
  then show ?thesis by (simp add: CONFIG_def)
qed

text \<open>
  C1. The play history is meant to hold at most \<^verbatim>\<open>HISTORY_SIZE\<close> entries.  Recording the
  current track keeps that bound (\<open>recordCurrentTrack_length\<close>), but the entry that line
  273 prepends after a failed play is not followed by a truncation: from a session
  whose play history holds 500 entries, a True-Shuffle pick whose three play commands
  fail leaves 503 entries.
\<close>

theorem C1_failed_attempts_exceed_bound:
  "length (playHistory exFull) = HISTORY_SIZE CONFIG \<and>
   HISTORY_SIZE CONFIG = 500 \<and>
   length (playHistory (recordCurrentTrack CONFIG exFull)) = 500 \<and>
   length (playHistory (handleSkipForward CONFIG None False noPlay draws exFull)) = 503"
proof -
  let ?h = "handleSkipForward CONFIG None False noPlay draws exFull"
  from handleSkipForward_pick_outcome [OF exFull_hyps, of False noPlay draws]
  obtain c ps where
    fin: "if noPlay (length ps - 1)
       then playHistory ?h = rev (map failedEntry (butlast ps)) @ playHistory (recordCurrentTrack CONFIG exFull) \<and>
            navigationHistory ?h = navigationHistory (pushToNavigation CONFIG (Some (uri (last ps))) exFull) \<and>
            navigationIndex ?h = navigationIndex (pushToNavigation CONFIG (Some (uri (last ps))) exFull)
       else length ps = 3 \<and>
            playHistory ?h = rev (map failedEntry ps) @ playHistory (recordCurrentTrack CONFIG exFull) \<and>
            navigationHistory ?h = navigationHistory exFull \<and>
            navigationIndex ?h = navigationIndex exFull \<and>
            NativeSkipIn50 \<notin> set (newEffects exFull ?h) \<and>
            isNativePassSkip ?h = isNativePassSkip exFull"
    by blast
  then have a: "length (playHistory ?h) = 503"
    by (simp add: noPlay_def exFull_recorded)
  have b: "length (playHistory exFull) = HISTORY_SIZE CONFIG" "HISTORY_SIZE CONFIG = 500"
    by (simp_all add: exFull_def initial_def CONFIG_def)
  from a b exFull_recorded show ?thesis by blast
qed

section \<open>Muting and restoring the volume\<close>













section \<open>Handlers that interleave\<close>

lemma playTrackInContext_halves:
  "playTrackInContext ok u s = (case playBegin u s of None \<Rightarrow> (False, s) | Some s1 \<Rightarrow> playEnd ok s1)"
  by (simp add: playTrackInContext_def playBegin_def playEnd_def Let_def split: option.splits)

lemma handleSkipForward_halves:
  assumes "forwardAwait cfg contents s = Some s1"
  shows "handleSkipForward cfg contents okReplay okPick rnd s = forwardResume cfg okReplay okPick rnd s1"
  using assms
  by (auto simp: forwardAwait_def handleSkipForward_def forwardResume_def replayForward_def
      playTrackInContext_halves Let_def split: if_splits prod.splits option.splits)

lemma handleSkipBack_halves:
  assumes "backAwait s = Some s1"
  shows "handleSkipBack ok s = backResume ok s1"
  using assms
  by (auto simp: backAwait_def handleSkipBack_def backResume_def
      playTrackInContext_halves Let_def split: if_splits prod.splits option.splits)

lemma exOne_eval:
  "exOne =
     (initial (Some (mkItem ''a'')) (Some ''spotify:playlist:p'') True 0.8)
     \<lparr> navigationHistory := [''spotify:track:a''],
       navigationIndex := 0,
       currentPlaylistUri := Some ''spotify:playlist:p'',
       currentPlaylistTracks := Some [mkTrack ''a'', mkTrack ''b'', mkTrack ''c'', mkTrack ''d''],
       lastContextUri := Some ''spotify:playlist:p'',
       issued := [Preload ''spotify:playlist:p''] \<rparr>"
  by (simp add: exOne_def initial_def songchange_def currentUri_def mkItem_def truthy_def
      getContextUri_def or_null_def contextChange_def pushToNavigation_def Let_def slice0_def
      CONFIG_def isPlaylistUri_def emit_def preloadDone_def loadPlaylistTracks_def exItems_def
      mkRaw_def mkTrack_def)

lemmas race_defs = initial_def isInTrueShuffleMode_def
      isPlaylistUri_def getContextUri_def or_null_def truthy_def muteForSkip_def setVolume_def
      emit_def restoreVolume_def Let_def CONFIG_def mkItem_def mkEntry_def hostPlays_def hostReports_def

lemma race1_eval:
  "race1 = exOne\<lparr> playHistory := [mkEntry ''a''], skipCounter := 1, isNativePassSkip := True,
       savedVolume := Some 0.8, smoothSkipMuted := True, playerVolume := 0,
       issued := [Preload ''spotify:playlist:p'', SetVolume 0, SetVolume 0, NativeSkipIn50,
                  ReleaseGuardIn1500] \<rparr>"
  unfolding race1_def exOne_eval
  by (simp add: race_defs Player_next_def handleSkipForward_def ensurePlaylistLoaded_def
      recordCurrentTrack_def replayForward_def nativePassThrough_def)

lemma race2_eval:
  "race2 = exOne\<lparr> playHistory := [mkEntry ''b'', mkEntry ''a''],
       navigationHistory := [''spotify:track:a'', ''spotify:track:b''], navigationIndex := 1,
       skipCounter := 1, playerItem := Some (mkItem ''b''),
       issued := [Preload ''spotify:playlist:p'', SetVolume 0, SetVolume 0, NativeSkipIn50,
                  ReleaseGuardIn1500, SetVolume 0.8] \<rparr>"
  unfolding race2_def race1_eval exOne_eval
  by (simp add: race_defs songchange_def nativePick_def currentUri_def recentUris_def
      pushToNavigation_def recordCurrentTrack_def)

lemma race3_eval:
  "race3 = exOne\<lparr> playHistory := [mkEntry ''b'', mkEntry ''a''],
       navigationHistory := [''spotify:track:a'', ''spotify:track:b''], navigationIndex := 0,
       skipCounter := 1, isHandlingAction := True, lastPlayedByUsUri := Some ''spotify:track:a'',
       issued := [Preload ''spotify:playlist:p'', SetVolume 0, SetVolume 0, NativeSkipIn50,
                  ReleaseGuardIn1500, SetVolume 0.8,
                  Play ''spotify:playlist:p'' (Some ''spotify:track:a''), ReleaseGuardIn1500] \<rparr>"
  unfolding race3_def race2_eval exOne_eval
  by (simp add: race_defs songchange_def Player_back_def handleSkipBack_def
      playTrackInContext_def js_index_def)

lemma race5_eval:
  "race5 = Some (exOne\<lparr> playHistory := [mkEntry ''a'', mkEntry ''b''],
       navigationHistory := [''spotify:track:a'', ''spotify:track:b''], navigationIndex := 1,
       skipCounter := 1, isHandlingAction := True, lastPlayedByUsUri := Some ''spotify:track:b'',
       savedVolume := Some 0.8, smoothSkipMuted := True, playerVolume := 0,
       issued := [Preload ''spotify:playlist:p'', SetVolume 0, SetVolume 0, NativeSkipIn50,
                  ReleaseGuardIn1500, SetVolume 0.8,
                  Play ''spotify:playlist:p'' (Some ''spotify:track:a''), ReleaseGuardIn1500,
                  SetVolume 0, Play ''spotify:playlist:p'' (Some ''spotify:track:b'')] \<rparr>)"
  unfolding race5_def race4_def race3_eval exOne_eval
  by (simp add: race_defs releaseGuard_def forwardAwait_def ensurePlaylistLoaded_def
      recordCurrentTrack_def playBegin_def js_index_def)

lemma race6_eval:
  "race6 = Some (exOne\<lparr> playHistory := [mkEntry ''a'', mkEntry ''b''],
       navigationHistory := [''spotify:track:a'', ''spotify:track:b''], navigationIndex := 0,
       skipCounter := 1, isHandlingAction := True, lastPlayedByUsUri := Some ''spotify:track:a'',
       savedVolume := Some 0.8, smoothSkipMuted := True, playerVolume := 0,
       issued := [Preload ''spotify:playlist:p'', SetVolume 0, SetVolume 0, NativeSkipIn50,
                  ReleaseGuardIn1500, SetVolume 0.8,
                  Play ''spotify:playlist:p'' (Some ''spotify:track:a''), ReleaseGuardIn1500,
                  SetVolume 0, Play ''spotify:playlist:p'' (Some ''spotify:track:b''),
                  Play ''spotify:playlist:p'' (Some ''spotify:track:a'')] \<rparr>)"
  unfolding race6_def race5_eval exOne_eval
  by (simp add: race_defs releaseGuard_def backAwait_def playBegin_def js_index_def)

lemma race7_eval:
  "race7 = Some (exOne\<lparr> playHistory := [mkEntry ''a'', mkEntry ''b''],
       navigationHistory := [''spotify:track:a'', ''spotify:track:b''], navigationIndex := - 1,
       skipCounter := 2, isNativePassSkip := True,
       savedVolume := Some 0.8, smoothSkipMuted := True, playerVolume := 0,
       issued := [Preload ''spotify:playlist:p'', SetVolume 0, SetVolume 0, NativeSkipIn50,
                  ReleaseGuardIn1500, SetVolume 0.8,
                  Play ''spotify:playlist:p'' (Some ''spotify:track:a''), ReleaseGuardIn1500,
                  SetVolume 0, Play ''spotify:playlist:p'' (Some ''spotify:track:b''),
                  Play ''spotify:playlist:p'' (Some ''spotify:track:a''),
                  SetVolume 0.8, SetVolume 0, NativeSkipIn50, ReleaseGuardIn1500] \<rparr>)"
  unfolding race7_def race6_eval exOne_eval
  by (simp add: race_defs forwardResume_def playEnd_def nativePassThrough_def)

lemma race_reachable: "\<exists>s. race7 = Some s \<and> reachable CONFIG s"
proof -
  have r0: "reachable CONFIG exOne"
    unfolding exOne_def by (intro reachable.by_preload reachable.by_songchange reachable.at_start)
  have r1: "reachable CONFIG race1"
    unfolding race1_def by (rule reachable.by_next [OF r0])
  have r2: "reachable CONFIG race2"
    unfolding race2_def hostPlays_def
    by (intro reachable.by_songchange reachable.by_host r1)
  have r3: "reachable CONFIG race3"
    unfolding race3_def hostPlays_def
    by (intro reachable.by_songchange reachable.by_host reachable.by_back r2)
  have r4: "reachable CONFIG (muteForSkip race4)"
    unfolding race4_def by (intro reachable.by_mute reachable.by_timer r3)
  from race5_eval obtain s5 where s5: "race5 = Some s5" by blast
  then have "forwardAwait CONFIG None (muteForSkip race4) = Some s5"
    unfolding race5_def .
  from reachable.by_forwardAwait [OF r4 this] have r5: "reachable CONFIG s5" .
  from race6_eval obtain s6 where s6: "race6 = Some s6" by blast
  then have "backAwait (releaseGuard s5) = Some s6" unfolding race6_def s5 by simp
  from reachable.by_backAwait [OF reachable.by_timer [OF r5] this]
  have r6: "reachable CONFIG s6" .
  have "race7 = Some (forwardResume CONFIG False noPlay draws s6)"
    unfolding race7_def s6 by simp
  with reachable.by_forwardResume [OF r6] show ?thesis by blast
qed

text \<open>
  C8. The cursor of the navigation history is meant to be -1 when the history is
  empty and an index into it otherwise, and the re-entrancy guard is meant to keep a
  skip from running while another is in progress.  The timers that release the guard
  are armed unconditionally (lines 279 and 297, also after the native pass-through has
  released it at line 255), so a timer of an earlier request releases the guard of a
  later one.  In the run \<open>race7\<close>, from the start of the script: Next (native
  pass-through), the listener accepts b, Back, the first timer fires, Next replays b and
  is suspended at line 242, the second timer fires, Back moves the cursor to 0, and the
  play command of the suspended Next fails: line 244 decrements the cursor to -1 while
  the navigation history holds a and b.
\<close>

theorem C8_cursor_invalid_after_interleaving:
  "\<exists>s. race7 = Some s \<and> reachable CONFIG s \<and>
       navigationHistory s = [''spotify:track:a'', ''spotify:track:b''] \<and>
       navigationIndex s = - 1 \<and> \<not> cursor_valid s"
proof -
  from race_reachable obtain s where s: "race7 = Some s" "reachable CONFIG s" by blast
  from s(1) have "navigationHistory s = [''spotify:track:a'', ''spotify:track:b'']"
    "navigationIndex s = - 1"
    unfolding race7_eval exOne_eval by (auto simp: initial_def)
  then have "\<not> cursor_valid s" by (simp add: cursor_valid_def)
  with s \<open>navigationHistory s = _\<close> \<open>navigationIndex s = - 1\<close> show ?thesis by blast
qed

section \<open>A muted session keeps the volume to restore\<close>

























section \<open>The volume through a forward skip\<close>
































end
